theory Spec2Isabelle
  imports Main "HOL-Library.Word"
begin

section \<open>The data model of onboard/logger.c\<close>

text \<open>
  The logger keeps one global \<^verbatim>\<open>VscopeStruct vscope\<close> and two function-local statics of
  \<^verbatim>\<open>vscopeAcquire\<close>. The declarations of the struct, of the state enumeration and of the
  \<^verbatim>\<open>VSCOPE_*\<close> macros live in \<^verbatim>\<open>vscope.h\<close>; what logger.c shows of them is used as
  follows.
  \<^item> The enumerators are the four names logger.c uses.
  \<^item> The scalar fields of the struct are taken to be \<^verbatim>\<open>uint16_t\<close>, the type of every counter
    that logger.c declares itself and compares them with (\<^verbatim>\<open>divider\<close>, \<^verbatim>\<open>run_index\<close>,
    \<^verbatim>\<open>i\<close>); arithmetic on them wraps modulo \<open>2 ^ 16\<close> and comparisons are unsigned.
  \<^item> A sample is a \<^verbatim>\<open>float\<close>; the logger only copies samples, so a sample is its 32-bit
    pattern and the cleared buffer holds the pattern 0.
  \<^item> \<^verbatim>\<open>vscope.frame[ch]\<close> is a pointer to one of the control-loop variables named in
    \<^verbatim>\<open>vscopeInit\<close>, or NULL after the \<^verbatim>\<open>memset\<close>.
  \<^item> \<^verbatim>\<open>vscope.buffer\<close> is addressed by row (the write cursor) and channel; the declared
    extent of the array is not visible in logger.c, and C checks no bounds, so the store is
    modelled as a total function of both indices.
\<close>

type_synonym uint16_t = "16 word"

type_synonym float32 = "32 word"

datatype VscopeState =
  VSCOPE_HALTED | VSCOPE_RUNNING | VSCOPE_ACQUIRING | VSCOPE_MISCONFIGURED

datatype source =
  voltage_setpoint | voltage_limit | voltage_measurement | current_measurement
  | temperature | frequency | duration | threshold | phase

record VscopeStruct =
  state :: VscopeState
  request :: VscopeState
  n_ch :: uint16_t
  buffer_size :: uint16_t
  pre_trig :: uint16_t
  divider :: uint16_t
  acq_time :: uint16_t
  index :: uint16_t
  first_element :: uint16_t
  frame :: "nat \<Rightarrow> source option"
  buffer :: "nat \<Rightarrow> nat \<Rightarrow> float32"

text \<open>
  The whole mutable state of the logger: the global struct and the two statics of
  \<^verbatim>\<open>vscopeAcquire\<close> (its static \<^verbatim>\<open>divider\<close> is called \<open>acquire_divider\<close> here, since the
  struct has a field of the same name).
\<close>

record logger =
  vscope :: VscopeStruct
  acquire_divider :: uint16_t
  run_index :: uint16_t

text \<open>
  The control-loop variables belong to the surrounding program and change between ticks;
  every operation that reads them takes their current values as an argument.
\<close>

type_synonym memory = "source \<Rightarrow> float32"

text \<open>
  Modelled from the spec: the macro \<^verbatim>\<open>VSCOPE_NUM_CHANNELS\<close> is defined in vscope.h.
  \<^verbatim>\<open>vscopeInit\<close> binds the slots 0 to 9 of \<^verbatim>\<open>vscope.frame\<close>, and the spec says that it
  ``binds every channel slot'', so the channel count is 10.
\<close>

definition VSCOPE_NUM_CHANNELS :: nat where
  "VSCOPE_NUM_CHANNELS = 10"

section \<open>The operations\<close>

subsection \<open>vscopeInit\<close>

definition CONFIGURE_CHANNEL :: "source \<Rightarrow> nat \<Rightarrow> VscopeStruct \<Rightarrow> VscopeStruct" where
  "CONFIGURE_CHANNEL name ch v = v\<lparr>frame := (frame v)(ch := Some name)\<rparr>"

text \<open>
  \<^verbatim>\<open>VSCOPE_DEFAULT_BUFFER_SIZE\<close> and \<^verbatim>\<open>VSCOPE_MEMORY\<close> are macros of vscope.h and are
  the parameters \<open>D\<close> and \<open>M\<close>. The capacity test multiplies and compares them in the
  unsigned integer type of the C compiler, whose width \<open>w\<close> depends on the target (16 bits
  on the TI parts that the \<^verbatim>\<open>DATA_SECTION\<close> pragma belongs to, 32 bits elsewhere) and is
  a parameter as well: the macro values and their product are taken modulo \<open>2 ^ w\<close>.
  \<^verbatim>\<open>vscopeInit\<close> leaves \<^verbatim>\<open>index\<close>, \<^verbatim>\<open>first_element\<close> and the statics of
  \<^verbatim>\<open>vscopeAcquire\<close> as they are. Its writes to \<^verbatim>\<open>rt_buffer\<close> and
  \<^verbatim>\<open>vscope_channel_names\<close>, two globals that the acquisition engine never reads, lie outside
  the state modelled here.
\<close>

definition vscopeInit :: "nat \<Rightarrow> nat \<Rightarrow> nat \<Rightarrow> logger \<Rightarrow> logger" where
  "vscopeInit w D M s =
     (let VSCOPE_DEFAULT_BUFFER_SIZE = D mod 2 ^ w;
          VSCOPE_MEMORY = M mod 2 ^ w;
          v0 = (vscope s)\<lparr>frame := (\<lambda>ch. None), buffer := (\<lambda>row ch. 0)\<rparr>;
          v1 = v0\<lparr>state := VSCOPE_HALTED, request := VSCOPE_HALTED\<rparr>;
          v2 = v1\<lparr>buffer_size := of_nat VSCOPE_DEFAULT_BUFFER_SIZE,
                  n_ch := of_nat VSCOPE_NUM_CHANNELS, pre_trig := 0, divider := 1\<rparr>;
          v3 = (if (VSCOPE_DEFAULT_BUFFER_SIZE * VSCOPE_NUM_CHANNELS) mod 2 ^ w > VSCOPE_MEMORY
                then v2\<lparr>state := VSCOPE_MISCONFIGURED\<rparr> else v2);
          v4 = v3\<lparr>acq_time := of_nat VSCOPE_DEFAULT_BUFFER_SIZE - pre_trig v3\<rparr>
      in s\<lparr>vscope :=
            (CONFIGURE_CHANNEL phase 9
            (CONFIGURE_CHANNEL threshold 8
            (CONFIGURE_CHANNEL duration 7
            (CONFIGURE_CHANNEL frequency 6
            (CONFIGURE_CHANNEL temperature 5
            (CONFIGURE_CHANNEL voltage_limit 4
            (CONFIGURE_CHANNEL current_measurement 3
            (CONFIGURE_CHANNEL voltage_measurement 2
            (CONFIGURE_CHANNEL voltage_limit 1
            (CONFIGURE_CHANNEL voltage_setpoint 0 v4))))))))))\<rparr>)"

subsection \<open>saveFrameToBuffer\<close>

text \<open>
  The \<^verbatim>\<open>for\<close> loop over the channel slots, as a recursion over the slots still to copy.
  Reading through a NULL slot is undefined in C: the model returns \<open>None\<close>.
\<close>

fun copy_channels :: "nat list \<Rightarrow> memory \<Rightarrow> VscopeStruct \<Rightarrow> VscopeStruct option" where
  "copy_channels [] m v = Some v"
| "copy_channels (i # is) m v =
     (case frame v i of
        None \<Rightarrow> None
      | Some p \<Rightarrow>
          copy_channels is m
            (v\<lparr>buffer := (buffer v)(unat (index v) := (buffer v (unat (index v)))(i := m p))\<rparr>))"

definition saveFrameToBuffer :: "memory \<Rightarrow> VscopeStruct \<Rightarrow> VscopeStruct option" where
  "saveFrameToBuffer m v =
     (case copy_channels [0..<VSCOPE_NUM_CHANNELS] m v of
        None \<Rightarrow> None
      | Some v1 \<Rightarrow>
          (let v2 = v1\<lparr>index := index v1 + 1\<rparr>
           in Some (if index v2 = buffer_size v2 then v2\<lparr>index := 0\<rparr> else v2)))"

subsection \<open>vscopeAcquire\<close>

text \<open>
  One call of the tick entry point. \<open>None\<close> is the undefined read of
  \<open>saveFrameToBuffer\<close>. The \<^verbatim>\<open>default\<close> branch of the \<^verbatim>\<open>switch\<close> is the branch of
  \<open>VSCOPE_MISCONFIGURED\<close>.
\<close>

definition vscopeAcquire :: "memory \<Rightarrow> logger \<Rightarrow> logger option" where
  "vscopeAcquire m s =
     (let d = acquire_divider s + 1 in
      if d < divider (vscope s) then Some (s\<lparr>acquire_divider := d\<rparr>)
      else
        (let s0 = s\<lparr>acquire_divider := 0\<rparr>; v = vscope s0 in
         case state v of
           VSCOPE_HALTED \<Rightarrow>
             (let v1 = v\<lparr>index := 0\<rparr> in
              Some (s0\<lparr>vscope :=
                (if request v1 = VSCOPE_RUNNING then v1\<lparr>state := VSCOPE_RUNNING\<rparr> else v1)\<rparr>))
         | VSCOPE_RUNNING \<Rightarrow>
             (let v1 = (if request v = VSCOPE_HALTED then v\<lparr>state := VSCOPE_HALTED\<rparr> else v);
                  s1 = (if request v1 = VSCOPE_ACQUIRING then
                          (if acq_time v1 = 0 then
                             s0\<lparr>vscope := v1\<lparr>state := VSCOPE_HALTED, first_element := index v1\<rparr>\<rparr>
                           else
                             s0\<lparr>vscope := v1\<lparr>state := VSCOPE_ACQUIRING\<rparr>, run_index := 1\<rparr>)
                        else s0\<lparr>vscope := v1\<rparr>)
              in map_option (\<lambda>v'. s1\<lparr>vscope := v'\<rparr>) (saveFrameToBuffer m (vscope s1)))
         | VSCOPE_ACQUIRING \<Rightarrow>
             (if run_index s0 = acq_time v then
                Some (s0\<lparr>vscope := v\<lparr>state := VSCOPE_HALTED, first_element := index v\<rparr>\<rparr>)
              else
                (let s1 = s0\<lparr>run_index := run_index s0 + 1\<rparr>
                 in map_option (\<lambda>v'. s1\<lparr>vscope := v'\<rparr>) (saveFrameToBuffer m (vscope s1))))
         | VSCOPE_MISCONFIGURED \<Rightarrow> Some s0))"

subsection \<open>vscopeTrigger\<close>

definition vscopeTrigger :: "logger \<Rightarrow> logger" where
  "vscopeTrigger s =
     (if state (vscope s) = VSCOPE_RUNNING
      then s\<lparr>vscope := (vscope s)\<lparr>request := VSCOPE_ACQUIRING\<rparr>\<rparr>
      else s)"

section \<open>Notions used by the properties\<close>

text \<open>
  A tick qualifies when the decimation gate of \<^verbatim>\<open>vscopeAcquire\<close> lets it through, that is
  when the test \<^verbatim>\<open>divider < vscope.divider\<close> after the increment is false.
\<close>

definition qualifies :: "logger \<Rightarrow> bool" where
  "qualifies s \<longleftrightarrow> \<not> acquire_divider s + 1 < divider (vscope s)"

text \<open>Every channel slot that \<open>saveFrameToBuffer\<close> reads holds a pointer.\<close>

definition channels_bound :: "VscopeStruct \<Rightarrow> bool" where
  "channels_bound v = list_all (\<lambda>i. frame v i \<noteq> None) [0..<VSCOPE_NUM_CHANNELS]"

text \<open>
  The frame that a capture stores: the row at the write cursor receives, for each channel
  slot, the current value of the variable bound to it.
\<close>

definition store_frame :: "memory \<Rightarrow> VscopeStruct \<Rightarrow> nat \<Rightarrow> nat \<Rightarrow> float32" where
  "store_frame m v =
     (buffer v)(unat (index v) :=
        (\<lambda>i. if i < VSCOPE_NUM_CHANNELS then m (the (frame v i)) else buffer v (unat (index v)) i))"

text \<open>The sample that the buffer holds at a row and a channel.\<close>

definition cell :: "nat \<Rightarrow> nat \<Rightarrow> logger \<Rightarrow> float32" where
  "cell row ch s = buffer (vscope s) row ch"

text \<open>The write cursor after a capture.\<close>

definition next_index :: "VscopeStruct \<Rightarrow> uint16_t" where
  "next_index v = (if index v + 1 = buffer_size v then 0 else index v + 1)"

text \<open>
  One capture, as \<^verbatim>\<open>saveFrameToBuffer\<close> performs it when every channel slot is bound: the
  frame is stored in the row at the cursor and the cursor moves on. Folding \<open>capture\<close> over
  a list of snapshots stores one frame per snapshot, in order.
\<close>

definition capture :: "memory \<Rightarrow> VscopeStruct \<Rightarrow> VscopeStruct" where
  "capture m v = v\<lparr>buffer := store_frame m v, index := next_index v\<rparr>"

text \<open>
  The snapshots that a gate of period \<open>p\<close> lets through, out of one snapshot per tick: it
  holds back the first \<open>w\<close>, lets one through, then one in every \<open>p\<close>, and stops after \<open>k\<close>.
\<close>

fun decimate :: "nat \<Rightarrow> nat \<Rightarrow> nat \<Rightarrow> 'a list \<Rightarrow> 'a list" where
  "decimate w p k [] = []"
| "decimate w p k (x # xs) =
     (if k = 0 then []
      else if w = 0 then x # decimate (p - 1) p (k - 1) xs
      else decimate (w - 1) p k xs)"

text \<open>The write cursor after \<open>k\<close> captures into a buffer of the given size.\<close>

fun cursor_after :: "nat \<Rightarrow> uint16_t \<Rightarrow> uint16_t \<Rightarrow> uint16_t" where
  "cursor_after 0 n i = i"
| "cursor_after (Suc k) n i = cursor_after k n (if i + 1 = n then 0 else i + 1)"

text \<open>
  Counting ticks. The gate lets one tick in \<open>gate_period\<close> through; \<open>gate_wait\<close> is the
  number of ticks it still holds back before the next qualifying one. During an
  acquisition, \<open>frames_left\<close> frames remain to be captured and the state is Halted after
  \<open>ticks_left\<close> more ticks.
\<close>

definition gate_period :: "logger \<Rightarrow> nat" where
  "gate_period s = max 1 (unat (divider (vscope s)))"

definition gate_wait :: "logger \<Rightarrow> nat" where
  "gate_wait s = unat (divider (vscope s)) - 1 - unat (acquire_divider s)"

definition frames_left :: "logger \<Rightarrow> nat" where
  "frames_left s = unat (acq_time (vscope s)) - unat (run_index s)"

definition ticks_left :: "logger \<Rightarrow> nat" where
  "ticks_left s = gate_wait s + 1 + frames_left s * gate_period s"

text \<open>
  An acquisition in progress: the state is Acquiring, the run counter has not passed
  \<^verbatim>\<open>acq_time\<close>, the decimation counter is below its largest value, every channel slot is
  bound, and the request is not Running (the trigger has set it to Acquiring).
\<close>

definition acquiring :: "logger \<Rightarrow> bool" where
  "acquiring s \<longleftrightarrow>
     state (vscope s) = VSCOPE_ACQUIRING \<and> request (vscope s) \<noteq> VSCOPE_RUNNING \<and>
     channels_bound (vscope s) \<and> run_index s \<le> acq_time (vscope s) \<and>
     unat (acquire_divider s) < 65535"

text \<open>
  The ticks on which \<^verbatim>\<open>vscopeAcquire\<close> reaches a call of \<^verbatim>\<open>saveFrameToBuffer\<close>: the
  qualifying ticks taken in state Running, and those taken in state Acquiring while the run
  counter differs from \<^verbatim>\<open>acq_time\<close>.
\<close>

definition captures :: "logger \<Rightarrow> bool" where
  "captures s \<longleftrightarrow>
     qualifies s \<and>
     (state (vscope s) = VSCOPE_RUNNING \<or>
      (state (vscope s) = VSCOPE_ACQUIRING \<and> run_index s \<noteq> acq_time (vscope s)))"

text \<open>
  A run of ticks, one snapshot of the control-loop variables per tick, with nothing else
  touching the logger in between; and the number of frames captured during such a run.
\<close>

fun ticks :: "memory list \<Rightarrow> logger \<Rightarrow> logger option" where
  "ticks [] s = Some s"
| "ticks (m # ms) s = (case vscopeAcquire m s of None \<Rightarrow> None | Some s' \<Rightarrow> ticks ms s')"

fun frames_captured :: "memory list \<Rightarrow> logger \<Rightarrow> nat" where
  "frames_captured [] s = 0"
| "frames_captured (m # ms) s =
     (if captures s then 1 else 0) +
     (case vscopeAcquire m s of None \<Rightarrow> 0 | Some s' \<Rightarrow> frames_captured ms s')"

text \<open>The tick and the trigger as events, and a sequence of calls of them.\<close>

datatype event = Tick memory | Trigger

fun apply_event :: "event \<Rightarrow> logger \<Rightarrow> logger option" where
  "apply_event (Tick m) s = vscopeAcquire m s"
| "apply_event Trigger s = Some (vscopeTrigger s)"

fun run :: "event list \<Rightarrow> logger \<Rightarrow> logger option" where
  "run [] s = Some s"
| "run (e # es) s = (case apply_event e s of None \<Rightarrow> None | Some s' \<Rightarrow> run es s')"

text \<open>
  The host writes fields of the struct from its own context; the writes that the
  properties below use are named.
\<close>

definition set_request :: "VscopeState \<Rightarrow> logger \<Rightarrow> logger" where
  "set_request r s = s\<lparr>vscope := (vscope s)\<lparr>request := r\<rparr>\<rparr>"

definition set_divider :: "uint16_t \<Rightarrow> logger \<Rightarrow> logger" where
  "set_divider d s = s\<lparr>vscope := (vscope s)\<lparr>divider := d\<rparr>\<rparr>"

definition set_buffer_size :: "uint16_t \<Rightarrow> logger \<Rightarrow> logger" where
  "set_buffer_size n s = s\<lparr>vscope := (vscope s)\<lparr>buffer_size := n\<rparr>\<rparr>"

text \<open>
  The state at program start: C initialises the statics of \<^verbatim>\<open>vscopeAcquire\<close> to 0 and
  clears the global struct (the state and the request then hold the enumerator of value 0,
  taken to be the first one; \<^verbatim>\<open>vscopeInit\<close> overwrites both).
\<close>

definition power_on :: logger where
  "power_on =
     \<lparr>vscope = \<lparr>state = VSCOPE_HALTED, request = VSCOPE_HALTED, n_ch = 0, buffer_size = 0,
        pre_trig = 0, divider = 0, acq_time = 0, index = 0, first_element = 0,
        frame = (\<lambda>ch. None), buffer = (\<lambda>row ch. 0)\<rparr>,
      acquire_divider = 0, run_index = 0\<rparr>"

text \<open>
  The states that the program can be in: after program start, any interleaving of the three
  entry points and of host writes to the struct.
\<close>

inductive reachable :: "logger \<Rightarrow> bool" where
  boot: "reachable power_on"
| init: "reachable s \<Longrightarrow> reachable (vscopeInit w D M s)"
| host: "reachable s \<Longrightarrow> reachable (s\<lparr>vscope := v\<rparr>)"
| tick: "reachable s \<Longrightarrow> vscopeAcquire m s = Some s' \<Longrightarrow> reachable s'"
| trigger: "reachable s \<Longrightarrow> reachable (vscopeTrigger s)"

code_pred reachable .

subsection \<open>Concrete states\<close>

text \<open>
  The worked example of the spec, on a target with 16-bit unsigned integers: a buffer of 8 rows
  within the storage budget, divisor 1 and no pre-trigger samples, so that \<^verbatim>\<open>acq_time\<close>
  is 8.
\<close>

fun example_memory :: memory where
  "example_memory voltage_setpoint = 11"
| "example_memory voltage_limit = 12"
| "example_memory voltage_measurement = 13"
| "example_memory current_measurement = 14"
| "example_memory temperature = 15"
| "example_memory frequency = 16"
| "example_memory duration = 17"
| "example_memory threshold = 18"
| "example_memory phase = 19"

definition example_init :: logger where
  "example_init = vscopeInit 16 8 80 power_on"

definition example_halted :: logger where
  "example_halted = set_request VSCOPE_RUNNING example_init"

definition example_running :: logger where
  "example_running = example_halted\<lparr>vscope := (vscope example_halted)\<lparr>state := VSCOPE_RUNNING\<rparr>\<rparr>"

definition example_triggered :: logger where
  "example_triggered = vscopeTrigger example_running"

text \<open>
  The host enlarges the buffer of the running example to 16 rows, nine ticks move the cursor
  to row 9, and the host then shrinks the buffer back to 8 rows.
\<close>

definition example_shrunk :: "logger option" where
  "example_shrunk =
     map_option (set_buffer_size 8)
       (ticks (replicate 9 example_memory) (set_buffer_size 16 example_running))"


text \<open>Running with a halt requested, the cursor at row 0.\<close>

definition example_halt_requested :: logger where
  "example_halt_requested = set_request VSCOPE_HALTED example_running"

text \<open>
  Running and triggered with a pre-trigger count equal to the buffer size, so that
  \<^verbatim>\<open>acq_time\<close> is 0; the cursor is at row 3.
\<close>

definition example_zero_window :: logger where
  "example_zero_window =
     example_running\<lparr>vscope := (vscope example_running)\<lparr>request := VSCOPE_ACQUIRING,
        pre_trig := 8, acq_time := 0, index := 3\<rparr>\<rparr>"

section \<open>What initialisation leaves behind\<close>

lemma vscopeInit_fields:
  "state (vscope (vscopeInit w D M s)) =
     (if M mod 2 ^ w < (D * VSCOPE_NUM_CHANNELS) mod 2 ^ w then VSCOPE_MISCONFIGURED
      else VSCOPE_HALTED)"
  "request (vscope (vscopeInit w D M s)) = VSCOPE_HALTED"
  "buffer_size (vscope (vscopeInit w D M s)) = of_nat (D mod 2 ^ w)"
  "acq_time (vscope (vscopeInit w D M s)) = of_nat (D mod 2 ^ w)"
  "pre_trig (vscope (vscopeInit w D M s)) = 0"
  "divider (vscope (vscopeInit w D M s)) = 1"
  "index (vscope (vscopeInit w D M s)) = index (vscope s)"
  "first_element (vscope (vscopeInit w D M s)) = first_element (vscope s)"
  "buffer (vscope (vscopeInit w D M s)) = (\<lambda>row ch. 0)"
  "acquire_divider (vscopeInit w D M s) = acquire_divider s"
  "run_index (vscopeInit w D M s) = run_index s"
  by (simp_all add: vscopeInit_def CONFIGURE_CHANNEL_def Let_def mod_mult_left_eq)

lemma vscopeInit_frame:
  "frame (vscope (vscopeInit w D M s)) =
     (\<lambda>ch. None)(0 := Some voltage_setpoint, 1 := Some voltage_limit,
       2 := Some voltage_measurement, 3 := Some current_measurement,
       4 := Some voltage_limit, 5 := Some temperature, 6 := Some frequency,
       7 := Some duration, 8 := Some threshold, 9 := Some phase)"
  by (simp add: vscopeInit_def CONFIGURE_CHANNEL_def Let_def)

lemma vscopeInit_bound: "channels_bound (vscope (vscopeInit w D M s))"
  by (simp add: vscopeInit_frame channels_bound_def VSCOPE_NUM_CHANNELS_def upt_rec)

section \<open>Properties of a single capture\<close>

lemma copy_channels_bound:
  assumes "\<forall>i \<in> set cs. frame v i \<noteq> None"
  shows "copy_channels cs m v =
    Some (v\<lparr>buffer := (buffer v)(unat (index v) :=
      (\<lambda>i. if i \<in> set cs then m (the (frame v i)) else buffer v (unat (index v)) i))\<rparr>)"
  using assms
proof (induction cs arbitrary: v)
  case Nil
  then show ?case by simp
next
  case (Cons c cs)
  from Cons.prems obtain p where p: "frame v c = Some p" by auto
  let ?v = "v\<lparr>buffer := (buffer v)(unat (index v) := (buffer v (unat (index v)))(c := m p))\<rparr>"
  have "\<forall>i \<in> set cs. frame ?v i \<noteq> None" using Cons.prems by simp
  from Cons.IH [OF this] p show ?case
    by (auto simp: fun_eq_iff)
qed

lemma saveFrameToBuffer_bound:
  assumes "channels_bound v"
  shows "saveFrameToBuffer m v = Some (v\<lparr>buffer := store_frame m v, index := next_index v\<rparr>)"
proof -
  have "copy_channels [0..<VSCOPE_NUM_CHANNELS] m v =
      Some (v\<lparr>buffer := store_frame m v\<rparr>)"
    using copy_channels_bound [of "[0..<VSCOPE_NUM_CHANNELS]" v m] assms
    by (simp add: channels_bound_def store_frame_def list_all_iff)
  then show ?thesis
    by (simp add: saveFrameToBuffer_def next_index_def Let_def)
qed

text \<open>A capture fails exactly when a channel slot is unbound.\<close>

lemma copy_channels_unbound:
  assumes "\<exists>i \<in> set cs. frame v i = None"
  shows "copy_channels cs m v = None"
  using assms
proof (induction cs arbitrary: v)
  case Nil
  then show ?case by simp
next
  case (Cons c cs)
  show ?case
  proof (cases "frame v c")
    case None
    then show ?thesis by simp
  next
    case (Some p)
    let ?v = "v\<lparr>buffer := (buffer v)(unat (index v) := (buffer v (unat (index v)))(c := m p))\<rparr>"
    from Cons.prems Some have "\<exists>i \<in> set cs. frame ?v i = None" by auto
    from Cons.IH [OF this] Some show ?thesis by simp
  qed
qed

lemma saveFrameToBuffer_eq:
  "saveFrameToBuffer m v =
     (if channels_bound v then Some (v\<lparr>buffer := store_frame m v, index := next_index v\<rparr>)
      else None)"
proof (cases "channels_bound v")
  case True
  then show ?thesis by (simp add: saveFrameToBuffer_bound)
next
  case False
  then have "copy_channels [0..<VSCOPE_NUM_CHANNELS] m v = None"
    by (intro copy_channels_unbound) (simp add: channels_bound_def list_all_iff)
  then show ?thesis using False by (simp add: saveFrameToBuffer_def)
qed

lemma save_ignores_divider [simp]:
  "store_frame m (v\<lparr>divider := d\<rparr>) = store_frame m v"
  "next_index (v\<lparr>divider := d\<rparr>) = next_index v"
  by (simp_all add: store_frame_def next_index_def cong: if_cong)

section \<open>The tick, case by case\<close>

text \<open>A tick that the decimation gate holds back only counts.\<close>

lemma tick_gated:
  assumes "\<not> qualifies s"
  shows "vscopeAcquire m s = Some (s\<lparr>acquire_divider := acquire_divider s + 1\<rparr>)"
  using assms by (simp add: vscopeAcquire_def qualifies_def)

lemma tick_halted:
  assumes "qualifies s" and "state (vscope s) = VSCOPE_HALTED"
  shows "vscopeAcquire m s =
    Some (s\<lparr>acquire_divider := 0,
            vscope := (vscope s)\<lparr>index := 0,
              state := (if request (vscope s) = VSCOPE_RUNNING then VSCOPE_RUNNING
                        else VSCOPE_HALTED)\<rparr>\<rparr>)"
  using assms by (simp add: vscopeAcquire_def qualifies_def)

lemma tick_misconfigured:
  assumes "qualifies s" and "state (vscope s) = VSCOPE_MISCONFIGURED"
  shows "vscopeAcquire m s = Some (s\<lparr>acquire_divider := 0\<rparr>)"
  using assms by (simp add: vscopeAcquire_def qualifies_def)

lemma channels_bound_update [simp]:
  "channels_bound (v\<lparr>buffer := b\<rparr>) = channels_bound v"
  "channels_bound (v\<lparr>index := i\<rparr>) = channels_bound v"
  "channels_bound (v\<lparr>request := r\<rparr>) = channels_bound v"
  "channels_bound (v\<lparr>divider := d\<rparr>) = channels_bound v"
  by (simp_all add: channels_bound_def)

lemma save_ignores_state [simp]:
  "store_frame m (v\<lparr>state := x\<rparr>) = store_frame m v"
  "next_index (v\<lparr>state := x\<rparr>) = next_index v"
  "channels_bound (v\<lparr>state := x\<rparr>) = channels_bound v"
  by (simp_all add: store_frame_def next_index_def channels_bound_def cong: if_cong)

lemma save_ignores_first_element [simp]:
  "store_frame m (v\<lparr>first_element := y\<rparr>) = store_frame m v"
  "next_index (v\<lparr>first_element := y\<rparr>) = next_index v"
  "channels_bound (v\<lparr>first_element := y\<rparr>) = channels_bound v"
  by (simp_all add: store_frame_def next_index_def channels_bound_def cong: if_cong)

lemma tick_running:
  assumes "qualifies s" and "state (vscope s) = VSCOPE_RUNNING"
    and "channels_bound (vscope s)"
  shows "vscopeAcquire m s =
    Some (case request (vscope s) of
        VSCOPE_HALTED \<Rightarrow>
          s\<lparr>acquire_divider := 0,
            vscope := (vscope s)\<lparr>state := VSCOPE_HALTED,
              buffer := store_frame m (vscope s), index := next_index (vscope s)\<rparr>\<rparr>
      | VSCOPE_ACQUIRING \<Rightarrow>
          (if acq_time (vscope s) = 0 then
             s\<lparr>acquire_divider := 0,
               vscope := (vscope s)\<lparr>state := VSCOPE_HALTED,
                 first_element := index (vscope s),
                 buffer := store_frame m (vscope s), index := next_index (vscope s)\<rparr>\<rparr>
           else
             s\<lparr>acquire_divider := 0, run_index := 1,
               vscope := (vscope s)\<lparr>state := VSCOPE_ACQUIRING,
                 buffer := store_frame m (vscope s), index := next_index (vscope s)\<rparr>\<rparr>)
      | _ \<Rightarrow>
          s\<lparr>acquire_divider := 0,
            vscope := (vscope s)\<lparr>buffer := store_frame m (vscope s),
              index := next_index (vscope s)\<rparr>\<rparr>)"
  using assms
  by (cases "request (vscope s)")
     (simp_all add: vscopeAcquire_def qualifies_def saveFrameToBuffer_bound Let_def)

lemma tick_acquiring_done:
  assumes "qualifies s" and "state (vscope s) = VSCOPE_ACQUIRING"
    and "run_index s = acq_time (vscope s)"
  shows "vscopeAcquire m s =
    Some (s\<lparr>acquire_divider := 0,
            vscope := (vscope s)\<lparr>state := VSCOPE_HALTED,
              first_element := index (vscope s)\<rparr>\<rparr>)"
  using assms by (simp add: vscopeAcquire_def qualifies_def Let_def)

lemma tick_acquiring_capture:
  assumes "qualifies s" and "state (vscope s) = VSCOPE_ACQUIRING"
    and "run_index s \<noteq> acq_time (vscope s)" and "channels_bound (vscope s)"
  shows "vscopeAcquire m s =
    Some (s\<lparr>acquire_divider := 0, run_index := run_index s + 1,
            vscope := (vscope s)\<lparr>buffer := store_frame m (vscope s),
              index := next_index (vscope s)\<rparr>\<rparr>)"
  using assms by (simp add: vscopeAcquire_def qualifies_def saveFrameToBuffer_bound Let_def)

section \<open>Which ticks capture\<close>

text \<open>
  The predicate \<open>captures\<close> singles out the ticks that call \<^verbatim>\<open>saveFrameToBuffer\<close>: a
  capturing tick stores the frame and moves the cursor, any other tick leaves the buffer
  alone, and a tick fails exactly when it captures with an unbound channel slot.
\<close>

lemma captures_saves:
  assumes "captures s" and "channels_bound (vscope s)"
  shows "\<exists>s'. vscopeAcquire m s = Some s' \<and>
    buffer (vscope s') = store_frame m (vscope s) \<and>
    index (vscope s') = next_index (vscope s)"
  using assms
  by (auto simp: captures_def tick_running tick_acquiring_capture split: VscopeState.splits)

lemma no_capture_keeps_buffer:
  assumes "\<not> captures s"
  shows "\<exists>s'. vscopeAcquire m s = Some s' \<and>
    buffer (vscope s') = buffer (vscope s) \<and>
    (index (vscope s') = index (vscope s) \<or>
     state (vscope s) = VSCOPE_HALTED \<and> qualifies s \<and> index (vscope s') = 0)"
proof (cases "qualifies s")
  case False
  then show ?thesis by (simp add: tick_gated)
next
  case True
  with assms show ?thesis
    by (cases "state (vscope s)")
       (simp_all add: captures_def tick_halted tick_acquiring_done tick_misconfigured)
qed

lemma tick_fails_iff:
  "vscopeAcquire m s = None \<longleftrightarrow> captures s \<and> \<not> channels_bound (vscope s)"
  by (cases "state (vscope s)"; cases "request (vscope s)")
     (auto simp: vscopeAcquire_def captures_def qualifies_def Let_def saveFrameToBuffer_eq)


section \<open>Arithmetic of the 16-bit counters\<close>

lemma unat_max16:
  fixes c :: uint16_t
  shows "unat c < 65536"
  using unsigned_less [of c, where 'a = nat] by simp

lemma unat_succ16:
  fixes c :: uint16_t
  assumes "unat c < 65535"
  shows "unat (c + 1) = unat c + 1"
  using assms unat_add_lem [of c 1] by simp

lemma gate_closed:
  fixes c d :: uint16_t
  assumes "unat c + 1 < unat d"
  shows "c + 1 < d" and "unat (c + 1) = unat c + 1"
proof -
  show s: "unat (c + 1) = unat c + 1"
    using assms unat_max16 [of d] by (intro unat_succ16) simp
  show "c + 1 < d" using assms s by (simp add: word_less_nat_alt)
qed

lemma gate_open:
  fixes c d :: uint16_t
  assumes "unat d \<le> unat c + 1" and "unat c < 65535"
  shows "\<not> c + 1 < d"
  using assms unat_succ16 [of c] by (simp add: word_less_nat_alt)

lemma counter_step:
  fixes r a :: uint16_t
  assumes "r \<le> a" and "r \<noteq> a"
  shows "r + 1 \<le> a" and "unat (r + 1) = unat r + 1"
proof -
  have lt: "unat r < unat a" using assms by (simp add: word_le_nat_alt word_unat_eq_iff)
  then show s: "unat (r + 1) = unat r + 1"
    using unat_max16 [of a] by (intro unat_succ16) simp
  show "r + 1 \<le> a" using lt s by (simp add: word_le_nat_alt)
qed

section \<open>The decimation gate\<close>

lemma gate_wait_pos:
  assumes "0 < gate_wait s"
  shows "\<not> qualifies s"
    and "unat (acquire_divider s + 1) = unat (acquire_divider s) + 1"
    and "gate_wait (s\<lparr>acquire_divider := acquire_divider s + 1\<rparr>) + 1 = gate_wait s"
proof -
  from assms have lt: "unat (acquire_divider s) + 1 < unat (divider (vscope s))"
    by (simp add: gate_wait_def)
  note g = gate_closed [OF lt]
  show "\<not> qualifies s" using g(1) by (simp add: qualifies_def)
  show "unat (acquire_divider s + 1) = unat (acquire_divider s) + 1" by (rule g(2))
  show "gate_wait (s\<lparr>acquire_divider := acquire_divider s + 1\<rparr>) + 1 = gate_wait s"
    using lt g(2) by (simp add: gate_wait_def)
qed

lemma gate_wait_zero:
  assumes "gate_wait s = 0" and "unat (acquire_divider s) < 65535"
  shows "qualifies s"
proof -
  from assms(1) have "unat (divider (vscope s)) \<le> unat (acquire_divider s) + 1"
    by (simp add: gate_wait_def)
  from gate_open [OF this assms(2)] show ?thesis by (simp add: qualifies_def)
qed

lemma gate_wait_restart:
  assumes "acquire_divider s' = 0" and "divider (vscope s') = divider (vscope s)"
  shows "gate_wait s' + 1 = gate_period s"
  using assms by (simp add: gate_wait_def gate_period_def max_def)

section \<open>One tick of an acquisition in progress\<close>

lemma acquiring_gated:
  assumes "acquiring s" and "0 < gate_wait s"
  shows "vscopeAcquire m s = Some (s\<lparr>acquire_divider := acquire_divider s + 1\<rparr>)"
    and "\<not> captures s"
    and "acquiring (s\<lparr>acquire_divider := acquire_divider s + 1\<rparr>)"
    and "ticks_left (s\<lparr>acquire_divider := acquire_divider s + 1\<rparr>) + 1 = ticks_left s"
    and "frames_left (s\<lparr>acquire_divider := acquire_divider s + 1\<rparr>) = frames_left s"
proof -
  note g = gate_wait_pos [OF assms(2)]
  show "vscopeAcquire m s = Some (s\<lparr>acquire_divider := acquire_divider s + 1\<rparr>)"
    using g(1) by (rule tick_gated)
  show "\<not> captures s" using g(1) by (simp add: captures_def)
  have "unat (acquire_divider s) + 1 < unat (divider (vscope s))"
    using assms(2) by (simp add: gate_wait_def)
  then have "unat (acquire_divider s + 1) < 65535"
    using g(2) unat_max16 [of "divider (vscope s)"] by simp
  then show "acquiring (s\<lparr>acquire_divider := acquire_divider s + 1\<rparr>)"
    using assms(1) by (simp add: acquiring_def)
  show "frames_left (s\<lparr>acquire_divider := acquire_divider s + 1\<rparr>) = frames_left s"
    by (simp add: frames_left_def)
  then show "ticks_left (s\<lparr>acquire_divider := acquire_divider s + 1\<rparr>) + 1 = ticks_left s"
    using g(3) by (simp add: ticks_left_def gate_period_def)
qed

lemma acquiring_capture:
  assumes "acquiring s" and "gate_wait s = 0" and "0 < frames_left s"
    and s1: "s1 = s\<lparr>acquire_divider := 0, run_index := run_index s + 1,
            vscope := (vscope s)\<lparr>buffer := store_frame m (vscope s),
              index := next_index (vscope s)\<rparr>\<rparr>"
  shows "vscopeAcquire m s = Some s1"
    and "captures s"
    and "acquiring s1"
    and "ticks_left s1 + 1 = ticks_left s"
    and "frames_left s1 + 1 = frames_left s"
proof -
  from assms(1) have a: "state (vscope s) = VSCOPE_ACQUIRING" "channels_bound (vscope s)"
    "run_index s \<le> acq_time (vscope s)" "unat (acquire_divider s) < 65535"
    "request (vscope s) \<noteq> VSCOPE_RUNNING"
    by (simp_all add: acquiring_def)
  have q: "qualifies s" using assms(2) a(4) by (rule gate_wait_zero)
  have ne: "run_index s \<noteq> acq_time (vscope s)" using assms(3) by (auto simp: frames_left_def)
  note c = counter_step [OF a(3) ne]
  show "vscopeAcquire m s = Some s1"
    unfolding s1 using q a(1) ne a(2) by (rule tick_acquiring_capture)
  show "captures s" using q a(1) ne by (simp add: captures_def)
  show "acquiring s1"
    using a c(1) by (simp add: acquiring_def s1)
  show fl: "frames_left s1 + 1 = frames_left s"
    using assms(3) c(2) by (simp add: frames_left_def s1)
  have "gate_wait s1 + 1 = gate_period s"
    by (rule gate_wait_restart) (simp_all add: s1)
  then have gp: "gate_period s = Suc (gate_wait s1)" by simp
  have gp1: "gate_period s1 = gate_period s" by (simp add: gate_period_def s1)
  from fl have fl': "frames_left s = Suc (frames_left s1)" by simp
  show "ticks_left s1 + 1 = ticks_left s"
    by (simp add: ticks_left_def gp1 fl' assms(2)) (simp add: gp)
qed

lemma acquiring_done:
  assumes "acquiring s" and "gate_wait s = 0" and "frames_left s = 0"
  shows "vscopeAcquire m s =
      Some (s\<lparr>acquire_divider := 0,
              vscope := (vscope s)\<lparr>state := VSCOPE_HALTED,
                first_element := index (vscope s)\<rparr>\<rparr>)"
    and "\<not> captures s"
    and "qualifies s"
    and "run_index s = acq_time (vscope s)"
    and "ticks_left s = 1"
proof -
  from assms(1) have a: "state (vscope s) = VSCOPE_ACQUIRING"
    "run_index s \<le> acq_time (vscope s)" "unat (acquire_divider s) < 65535"
    by (simp_all add: acquiring_def)
  show q: "qualifies s" using assms(2) a(3) by (rule gate_wait_zero)
  show eq: "run_index s = acq_time (vscope s)"
    using assms(3) a(2) by (simp add: frames_left_def word_le_nat_alt word_unat_eq_iff)
  show "vscopeAcquire m s =
      Some (s\<lparr>acquire_divider := 0,
              vscope := (vscope s)\<lparr>state := VSCOPE_HALTED,
                first_element := index (vscope s)\<rparr>\<rparr>)"
    using q a(1) eq by (rule tick_acquiring_done)
  show "\<not> captures s" using a(1) eq by (simp add: captures_def)
  show "ticks_left s = 1" using assms(2,3) by (simp add: ticks_left_def)
qed


section \<open>Runs of ticks\<close>

lemma halted_run:
  assumes "state (vscope s) = VSCOPE_HALTED" and "request (vscope s) \<noteq> VSCOPE_RUNNING"
  shows "\<exists>s'. ticks ms s = Some s' \<and> state (vscope s') = VSCOPE_HALTED \<and>
      frames_captured ms s = 0 \<and> first_element (vscope s') = first_element (vscope s) \<and>
      buffer (vscope s') = buffer (vscope s)"
  using assms
proof (induction ms arbitrary: s)
  case Nil
  then show ?case by simp
next
  case (Cons m ms)
  have nc: "\<not> captures s" using Cons.prems by (simp add: captures_def)
  show ?case
  proof (cases "qualifies s")
    case True
    let ?s1 = "s\<lparr>acquire_divider := 0, vscope := (vscope s)\<lparr>index := 0,
      state := (if request (vscope s) = VSCOPE_RUNNING then VSCOPE_RUNNING else VSCOPE_HALTED)\<rparr>\<rparr>"
    have t: "vscopeAcquire m s = Some ?s1" using True Cons.prems(1) by (rule tick_halted)
    have "state (vscope ?s1) = VSCOPE_HALTED" "request (vscope ?s1) \<noteq> VSCOPE_RUNNING"
      using Cons.prems by simp_all
    from Cons.IH [OF this] t nc show ?thesis by simp
  next
    case False
    let ?s1 = "s\<lparr>acquire_divider := acquire_divider s + 1\<rparr>"
    have t: "vscopeAcquire m s = Some ?s1" using False by (rule tick_gated)
    have "state (vscope ?s1) = VSCOPE_HALTED" "request (vscope ?s1) \<noteq> VSCOPE_RUNNING"
      using Cons.prems by simp_all
    from Cons.IH [OF this] t nc show ?thesis by simp
  qed
qed

lemma ticks_left_pos: "0 < ticks_left s"
  by (simp add: ticks_left_def)

lemma acquiring_run:
  assumes "acquiring s"
  shows "\<exists>s'. ticks ms s = Some s' \<and> frames_captured ms s \<le> frames_left s \<and>
      (length ms < ticks_left s \<longrightarrow>
         acquiring s' \<and> ticks_left s' + length ms = ticks_left s \<and>
         frames_captured ms s + frames_left s' = frames_left s \<and>
         acq_time (vscope s') = acq_time (vscope s) \<and>
         buffer_size (vscope s') = buffer_size (vscope s) \<and>
         index (vscope s') =
           cursor_after (frames_captured ms s) (buffer_size (vscope s)) (index (vscope s))) \<and>
      (ticks_left s \<le> length ms \<longrightarrow>
         state (vscope s') = VSCOPE_HALTED \<and> frames_captured ms s = frames_left s) \<and>
      (length ms = ticks_left s \<longrightarrow>
         first_element (vscope s') = index (vscope s') \<and>
         index (vscope s') =
           cursor_after (frames_left s) (buffer_size (vscope s)) (index (vscope s)))"
  using assms
proof (induction ms arbitrary: s)
  case Nil
  then show ?case using ticks_left_pos [of s] by simp
next
  case (Cons m ms)
  consider (gated) "0 < gate_wait s"
    | (capture) "gate_wait s = 0" "0 < frames_left s"
    | (stop) "gate_wait s = 0" "frames_left s = 0"
    by auto
  then show ?case
  proof cases
    case gated
    let ?s1 = "s\<lparr>acquire_divider := acquire_divider s + 1\<rparr>"
    note g = acquiring_gated [OF Cons.prems gated]
    from Cons.IH [OF g(3)] obtain s' where s': "ticks ms ?s1 = Some s'"
      "frames_captured ms ?s1 \<le> frames_left ?s1"
      "length ms < ticks_left ?s1 \<longrightarrow>
         acquiring s' \<and> ticks_left s' + length ms = ticks_left ?s1 \<and>
         frames_captured ms ?s1 + frames_left s' = frames_left ?s1 \<and>
         acq_time (vscope s') = acq_time (vscope ?s1) \<and>
         buffer_size (vscope s') = buffer_size (vscope ?s1) \<and>
         index (vscope s') =
           cursor_after (frames_captured ms ?s1) (buffer_size (vscope ?s1)) (index (vscope ?s1))"
      "ticks_left ?s1 \<le> length ms \<longrightarrow>
         state (vscope s') = VSCOPE_HALTED \<and> frames_captured ms ?s1 = frames_left ?s1"
      "length ms = ticks_left ?s1 \<longrightarrow>
         first_element (vscope s') = index (vscope s') \<and>
         index (vscope s') =
           cursor_after (frames_left ?s1) (buffer_size (vscope ?s1)) (index (vscope ?s1))"
      by blast
    have tl: "ticks_left s = Suc (ticks_left ?s1)" using g(4) by simp
    have "ticks (m # ms) s = Some s'" using g(1) s'(1) by simp
    moreover have "frames_captured (m # ms) s = frames_captured ms ?s1"
      using g(1,2) by simp
    ultimately show ?thesis using s'(2-5) g(5) tl
      by (intro exI [of _ s']) (simp del: frames_captured.simps ticks.simps)
  next
    case capture
    define s1 where "s1 = s\<lparr>acquire_divider := 0, run_index := run_index s + 1,
            vscope := (vscope s)\<lparr>buffer := store_frame m (vscope s),
              index := next_index (vscope s)\<rparr>\<rparr>"
    note c = acquiring_capture [OF Cons.prems capture s1_def]
    from Cons.IH [OF c(3)] obtain s' where s': "ticks ms s1 = Some s'"
      "frames_captured ms s1 \<le> frames_left s1"
      "length ms < ticks_left s1 \<longrightarrow>
         acquiring s' \<and> ticks_left s' + length ms = ticks_left s1 \<and>
         frames_captured ms s1 + frames_left s' = frames_left s1 \<and>
         acq_time (vscope s') = acq_time (vscope s1) \<and>
         buffer_size (vscope s') = buffer_size (vscope s1) \<and>
         index (vscope s') =
           cursor_after (frames_captured ms s1) (buffer_size (vscope s1)) (index (vscope s1))"
      "ticks_left s1 \<le> length ms \<longrightarrow>
         state (vscope s') = VSCOPE_HALTED \<and> frames_captured ms s1 = frames_left s1"
      "length ms = ticks_left s1 \<longrightarrow>
         first_element (vscope s') = index (vscope s') \<and>
         index (vscope s') =
           cursor_after (frames_left s1) (buffer_size (vscope s1)) (index (vscope s1))"
      by blast
    have tl: "ticks_left s = Suc (ticks_left s1)" using c(4) by simp
    have fl: "frames_left s = Suc (frames_left s1)" using c(5) by simp
    have v: "acq_time (vscope s1) = acq_time (vscope s)"
      "buffer_size (vscope s1) = buffer_size (vscope s)"
      "index (vscope s1) = (if index (vscope s) + 1 = buffer_size (vscope s) then 0
         else index (vscope s) + 1)"
      by (simp_all add: s1_def next_index_def)
    have "ticks (m # ms) s = Some s'" using c(1) s'(1) by simp
    moreover have "frames_captured (m # ms) s = Suc (frames_captured ms s1)"
      using c(1,2) by simp
    ultimately show ?thesis using s'(2-5) tl fl v
      by (intro exI [of _ s']) (simp del: frames_captured.simps ticks.simps)
  next
    case stop
    let ?s1 = "s\<lparr>acquire_divider := 0,
              vscope := (vscope s)\<lparr>state := VSCOPE_HALTED,
                first_element := index (vscope s)\<rparr>\<rparr>"
    note d = acquiring_done [OF Cons.prems stop]
    have "state (vscope ?s1) = VSCOPE_HALTED" "request (vscope ?s1) \<noteq> VSCOPE_RUNNING"
      using Cons.prems by (simp_all add: acquiring_def)
    from halted_run [OF this, of ms] obtain s' where s': "ticks ms ?s1 = Some s'"
      "state (vscope s') = VSCOPE_HALTED" "frames_captured ms ?s1 = 0"
      by blast
    have "ticks (m # ms) s = Some s'" using d(1) s'(1) by simp
    moreover have "frames_captured (m # ms) s = 0"
      using d(1,2) s'(3) by simp
    moreover have "s' = ?s1" if "ms = []" using that s'(1) by simp
    ultimately show ?thesis using s'(2) d(5) stop
      by (intro exI [of _ s']) (auto simp del: frames_captured.simps ticks.simps)
  qed
qed

lemma trigger_tick:
  assumes "state (vscope s) = VSCOPE_RUNNING" and "request (vscope s) = VSCOPE_ACQUIRING"
    and "acq_time (vscope s) \<noteq> 0" and "qualifies s" and "channels_bound (vscope s)"
    and s1: "s1 = s\<lparr>acquire_divider := 0, run_index := 1,
               vscope := (vscope s)\<lparr>state := VSCOPE_ACQUIRING,
                 buffer := store_frame m (vscope s), index := next_index (vscope s)\<rparr>\<rparr>"
  shows "vscopeAcquire m s = Some s1"
    and "captures s"
    and "acquiring s1"
    and "Suc (frames_left s1) = unat (acq_time (vscope s))"
    and "ticks_left s1 = unat (acq_time (vscope s)) * gate_period s"
proof -
  show "vscopeAcquire m s = Some s1"
    using assms(1-5) by (simp add: tick_running s1)
  show "captures s" using assms(1,4) by (simp add: captures_def)
  have pos: "0 < unat (acq_time (vscope s))" using assms(3) by (simp add: unat_gt_0)
  then have "1 \<le> acq_time (vscope s)" by (simp add: word_le_nat_alt)
  then show "acquiring s1" using assms(2,5) by (simp add: acquiring_def s1)
  show fl: "Suc (frames_left s1) = unat (acq_time (vscope s))"
    using pos by (simp add: frames_left_def s1)
  have "gate_wait s1 + 1 = gate_period s" by (rule gate_wait_restart) (simp_all add: s1)
  moreover have "gate_period s1 = gate_period s" by (simp add: gate_period_def s1)
  ultimately show "ticks_left s1 = unat (acq_time (vscope s)) * gate_period s"
    by (simp add: ticks_left_def flip: fl)
qed

lemma triggered_run:
  assumes "state (vscope s) = VSCOPE_RUNNING" and "request (vscope s) = VSCOPE_ACQUIRING"
    and "acq_time (vscope s) \<noteq> 0" and "qualifies s" and "channels_bound (vscope s)"
  shows "\<exists>s'. ticks ms s = Some s' \<and>
      frames_captured ms s \<le> unat (acq_time (vscope s)) \<and>
      (0 < length ms \<and> length ms \<le> unat (acq_time (vscope s)) * gate_period s \<longrightarrow>
         state (vscope s') = VSCOPE_ACQUIRING \<and>
         acq_time (vscope s') = acq_time (vscope s) \<and>
         unat (run_index s') = frames_captured ms s \<and> 0 < frames_captured ms s \<and>
         index (vscope s') =
           cursor_after (frames_captured ms s) (buffer_size (vscope s)) (index (vscope s))) \<and>
      (length ms = unat (acq_time (vscope s)) * gate_period s \<longrightarrow>
         run_index s' = acq_time (vscope s) \<and> qualifies s' \<and>
         frames_captured ms s = unat (acq_time (vscope s))) \<and>
      (length ms = unat (acq_time (vscope s)) * gate_period s + 1 \<longrightarrow>
         first_element (vscope s') = index (vscope s') \<and>
         index (vscope s') =
           cursor_after (unat (acq_time (vscope s))) (buffer_size (vscope s))
             (index (vscope s))) \<and>
      (unat (acq_time (vscope s)) * gate_period s < length ms \<longrightarrow>
         state (vscope s') = VSCOPE_HALTED \<and>
         frames_captured ms s = unat (acq_time (vscope s)))"
proof (cases ms)
  case Nil
  have "0 < unat (acq_time (vscope s))" using assms(3) by (simp add: unat_gt_0)
  then have "0 < unat (acq_time (vscope s)) * gate_period s" by (simp add: gate_period_def)
  then show ?thesis using Nil by simp
next
  case (Cons m ms')
  define s1 where "s1 = s\<lparr>acquire_divider := 0, run_index := 1,
               vscope := (vscope s)\<lparr>state := VSCOPE_ACQUIRING,
                 buffer := store_frame m (vscope s), index := next_index (vscope s)\<rparr>\<rparr>"
  note t = trigger_tick [OF assms s1_def]
  have v: "acq_time (vscope s1) = acq_time (vscope s)"
      "buffer_size (vscope s1) = buffer_size (vscope s)"
      "index (vscope s1) = (if index (vscope s) + 1 = buffer_size (vscope s) then 0
         else index (vscope s) + 1)"
      by (simp_all add: s1_def next_index_def)
  from acquiring_run [OF t(3), of ms'] obtain s' where s': "ticks ms' s1 = Some s'"
      "frames_captured ms' s1 \<le> frames_left s1"
      "length ms' < ticks_left s1 \<longrightarrow>
         acquiring s' \<and> ticks_left s' + length ms' = ticks_left s1 \<and>
         frames_captured ms' s1 + frames_left s' = frames_left s1 \<and>
         acq_time (vscope s') = acq_time (vscope s1) \<and>
         buffer_size (vscope s') = buffer_size (vscope s1) \<and>
         index (vscope s') =
           cursor_after (frames_captured ms' s1) (buffer_size (vscope s1)) (index (vscope s1))"
      "ticks_left s1 \<le> length ms' \<longrightarrow>
         state (vscope s') = VSCOPE_HALTED \<and> frames_captured ms' s1 = frames_left s1"
      "length ms' = ticks_left s1 \<longrightarrow>
         first_element (vscope s') = index (vscope s') \<and>
         index (vscope s') =
           cursor_after (frames_left s1) (buffer_size (vscope s1)) (index (vscope s1))"
      by blast
  have tk: "ticks ms s = Some s'" using Cons t(1) s'(1) by simp
  have fc: "frames_captured ms s = Suc (frames_captured ms' s1)"
    using Cons t(1,2) by simp
  have len: "length ms = Suc (length ms')" using Cons by simp
  let ?a = "unat (acq_time (vscope s))" and ?T = "unat (acq_time (vscope s)) * gate_period s"
  have 1: "frames_captured ms s \<le> ?a" using s'(2) t(4) fc by simp
  have 2: "state (vscope s') = VSCOPE_ACQUIRING \<and>
         acq_time (vscope s') = acq_time (vscope s) \<and>
         unat (run_index s') = frames_captured ms s \<and> 0 < frames_captured ms s \<and>
         index (vscope s') =
           cursor_after (frames_captured ms s) (buffer_size (vscope s)) (index (vscope s))"
    if "length ms \<le> ?T"
  proof -
    from that have lt: "length ms' < ticks_left s1" using len t(5) by simp
    with s'(3) have a: "acquiring s'"
      "frames_captured ms' s1 + frames_left s' = frames_left s1"
      "acq_time (vscope s') = acq_time (vscope s1)"
      "index (vscope s') =
           cursor_after (frames_captured ms' s1) (buffer_size (vscope s1)) (index (vscope s1))"
      by simp_all
    from a(1) have "unat (run_index s') \<le> unat (acq_time (vscope s'))"
      by (simp add: acquiring_def word_le_nat_alt)
    then have "unat (run_index s') = frames_captured ms s"
      using a(2,3) t(4) fc v(1) by (simp add: frames_left_def)
    then show ?thesis using a(1,3,4) fc v by (simp add: acquiring_def)
  qed
  have 3: "run_index s' = acq_time (vscope s) \<and> qualifies s' \<and> frames_captured ms s = ?a"
    if "length ms = ?T"
  proof -
    from that have lt: "length ms' < ticks_left s1" "ticks_left s1 = Suc (length ms')"
      using len t(5) by simp_all
    with s'(3) have a: "acquiring s'" "ticks_left s' + length ms' = ticks_left s1"
      "frames_captured ms' s1 + frames_left s' = frames_left s1"
      "acq_time (vscope s') = acq_time (vscope s1)"
      by simp_all
    then have "ticks_left s' = 1" using lt(2) by simp
    then have z: "gate_wait s' = 0" "frames_left s' = 0"
      by (simp_all add: ticks_left_def gate_period_def)
    from a(1) have "unat (acquire_divider s') < 65535" by (simp add: acquiring_def)
    with z(1) have "qualifies s'" by (rule gate_wait_zero)
    moreover have "run_index s' = acq_time (vscope s)"
      using z(2) a(1,4) v(1)
      by (simp add: frames_left_def acquiring_def word_le_nat_alt word_unat_eq_iff)
    moreover have "frames_captured ms s = ?a" using a(3) z(2) fc t(4) by simp
    ultimately show ?thesis by simp
  qed
  have 4: "first_element (vscope s') = index (vscope s') \<and>
         index (vscope s') =
           cursor_after ?a (buffer_size (vscope s)) (index (vscope s))"
    if "length ms = ?T + 1"
  proof -
    from that have "length ms' = ticks_left s1" using len t(5) by simp
    with s'(5) show ?thesis using v t(4) [symmetric] by simp
  qed
  have 5: "state (vscope s') = VSCOPE_HALTED \<and> frames_captured ms s = ?a"
    if "?T < length ms"
  proof -
    from that have "ticks_left s1 \<le> length ms'" using len t(5) by simp
    with s'(4) show ?thesis using fc t(4) by simp
  qed
  from tk 1 2 3 4 5 show ?thesis by blast
qed


lemma ticks_snoc:
  "ticks (xs @ [x]) s = (case ticks xs s of None \<Rightarrow> None | Some s' \<Rightarrow> vscopeAcquire x s')"
  by (induction xs arbitrary: s) (auto split: option.splits)

section \<open>The frames that a run stores\<close>

lemma saveFrameToBuffer_capture:
  "saveFrameToBuffer m v = (if channels_bound v then Some (capture m v) else None)"
  by (simp add: saveFrameToBuffer_eq capture_def)

lemma capture_state:
  "capture m (v\<lparr>state := x\<rparr>) = (capture m v)\<lparr>state := x\<rparr>"
  by (simp add: capture_def)

lemma fold_capture_state:
  "fold capture ms (v\<lparr>state := x\<rparr>) = (fold capture ms v)\<lparr>state := x\<rparr>"
  by (induction ms arbitrary: v) (simp_all add: capture_state)

lemma decimate_none [simp]: "decimate w p 0 xs = []"
  by (cases xs) simp_all

lemma acquiring_stored:
  assumes "acquiring s" and "ticks ms s = Some s'"
  shows "buffer (vscope s') =
      buffer (fold capture (decimate (gate_wait s) (gate_period s) (frames_left s) ms) (vscope s)) \<and>
    frames_captured ms s =
      length (decimate (gate_wait s) (gate_period s) (frames_left s) ms) \<and>
    (length ms < ticks_left s \<longrightarrow>
       vscope s' =
         fold capture (decimate (gate_wait s) (gate_period s) (frames_left s) ms) (vscope s)) \<and>
    (length ms = ticks_left s \<longrightarrow>
       index (vscope s') =
         index (fold capture (decimate (gate_wait s) (gate_period s) (frames_left s) ms)
           (vscope s)))"
  using assms
proof (induction ms arbitrary: s)
  case Nil
  then show ?case using ticks_left_pos [of s] by simp
next
  case (Cons m ms)
  consider (gated) "0 < gate_wait s"
    | (capture) "gate_wait s = 0" "0 < frames_left s"
    | (stop) "gate_wait s = 0" "frames_left s = 0"
    by auto
  then show ?case
  proof cases
    case gated
    let ?s1 = "s\<lparr>acquire_divider := acquire_divider s + 1\<rparr>"
    note g = acquiring_gated [OF Cons.prems(1) gated]
    have t: "ticks ms ?s1 = Some s'" using Cons.prems(2) g(1) by simp
    have w: "gate_wait ?s1 = gate_wait s - 1" "gate_period ?s1 = gate_period s"
      using gate_wait_pos(3) [OF gated] by (simp_all add: gate_period_def)
    have tl: "ticks_left s = Suc (ticks_left ?s1)" using g(4) by simp
    have d: "decimate (gate_wait s) (gate_period s) (frames_left s) (m # ms) =
        decimate (gate_wait ?s1) (gate_period ?s1) (frames_left ?s1) ms"
      using gated w g(5) by simp
    have f: "frames_captured (m # ms) s = frames_captured ms ?s1" using g(1,2) by simp
    from Cons.IH [OF g(3) t] show ?thesis
      unfolding d f tl by simp
  next
    case capture
    define s1 where "s1 = s\<lparr>acquire_divider := 0, run_index := run_index s + 1,
            vscope := (vscope s)\<lparr>buffer := store_frame m (vscope s),
              index := next_index (vscope s)\<rparr>\<rparr>"
    note c = acquiring_capture [OF Cons.prems(1) capture s1_def]
    have t: "ticks ms s1 = Some s'" using Cons.prems(2) c(1) by simp
    have "gate_wait s1 + 1 = gate_period s"
      by (rule gate_wait_restart) (simp_all add: s1_def)
    then have w: "gate_wait s1 = gate_period s - 1" by simp
    have p: "gate_period s1 = gate_period s" by (simp add: gate_period_def s1_def)
    have k: "frames_left s1 = frames_left s - 1" using c(5) by simp
    have tl: "ticks_left s = Suc (ticks_left s1)" using c(4) by simp
    have v: "vscope s1 = capture m (vscope s)" by (simp add: s1_def capture_def)
    have d: "decimate (gate_wait s) (gate_period s) (frames_left s) (m # ms) =
        m # decimate (gate_wait s1) (gate_period s1) (frames_left s1) ms"
      using capture w p k by simp
    have f: "frames_captured (m # ms) s = Suc (frames_captured ms s1)" using c(1,2) by simp
    from Cons.IH [OF c(3) t] show ?thesis
      unfolding d f tl by (simp add: v)
  next
    case stop
    let ?s1 = "s\<lparr>acquire_divider := 0,
              vscope := (vscope s)\<lparr>state := VSCOPE_HALTED,
                first_element := index (vscope s)\<rparr>\<rparr>"
    note d = acquiring_done [OF Cons.prems(1) stop]
    have t: "ticks ms ?s1 = Some s'" using Cons.prems(2) d(1) by simp
    have h: "state (vscope ?s1) = VSCOPE_HALTED" "request (vscope ?s1) \<noteq> VSCOPE_RUNNING"
      using Cons.prems(1) by (simp_all add: acquiring_def)
    from halted_run [OF h, of ms] t have b: "buffer (vscope s') = buffer (vscope s)"
      "frames_captured ms ?s1 = 0"
      by auto
    have f: "frames_captured (m # ms) s = 0" using d(1,2) b(2) by simp
    have e: "s' = ?s1" if "ms = []" using that t by simp
    show ?thesis using b(1) f d(5) stop e by (auto simp del: frames_captured.simps)
  qed
qed


lemma triggered_stored:
  assumes "state (vscope s) = VSCOPE_RUNNING" and "request (vscope s) = VSCOPE_ACQUIRING"
    and "acq_time (vscope s) \<noteq> 0" and "qualifies s" and "channels_bound (vscope s)"
    and "ticks ms s = Some s'"
  shows "frames_captured ms s =
      length (decimate 0 (gate_period s) (unat (acq_time (vscope s))) ms)"
    and "buffer (vscope s') =
      buffer (fold capture (decimate 0 (gate_period s) (unat (acq_time (vscope s))) ms)
        (vscope s))"
    and "length ms \<le> unat (acq_time (vscope s)) * gate_period s + 1 \<Longrightarrow>
      index (vscope s') =
        index (fold capture (decimate 0 (gate_period s) (unat (acq_time (vscope s))) ms)
          (vscope s))"
proof -
  let ?a = "unat (acq_time (vscope s))" and ?P = "gate_period s"
  have all: "frames_captured ms s = length (decimate 0 ?P ?a ms) \<and>
    buffer (vscope s') = buffer (fold capture (decimate 0 ?P ?a ms) (vscope s)) \<and>
    (length ms \<le> ?a * ?P + 1 \<longrightarrow>
      index (vscope s') = index (fold capture (decimate 0 ?P ?a ms) (vscope s)))"
  proof (cases ms)
    case Nil
    then show ?thesis using assms(6) by simp
  next
    case (Cons m ms')
    define s1 where "s1 = s\<lparr>acquire_divider := 0, run_index := 1,
               vscope := (vscope s)\<lparr>state := VSCOPE_ACQUIRING,
                 buffer := store_frame m (vscope s), index := next_index (vscope s)\<rparr>\<rparr>"
    note t = trigger_tick [OF assms(1-5) s1_def]
    have tk: "ticks ms' s1 = Some s'" using assms(6) Cons t(1) by simp
    have "gate_wait s1 + 1 = gate_period s"
      by (rule gate_wait_restart) (simp_all add: s1_def)
    then have w: "gate_wait s1 = ?P - 1" by simp
    have p: "gate_period s1 = ?P" by (simp add: gate_period_def s1_def)
    have k: "frames_left s1 = ?a - 1" "?a \<noteq> 0" using t(4) by simp_all
    have v: "vscope s1 = (capture m (vscope s))\<lparr>state := VSCOPE_ACQUIRING\<rparr>"
      by (simp add: s1_def capture_def)
    have d: "decimate 0 ?P ?a ms = m # decimate (gate_wait s1) (gate_period s1) (frames_left s1) ms'"
      using Cons w p k by simp
    have f: "frames_captured ms s = Suc (frames_captured ms' s1)" using Cons t(1,2) by simp
    have len: "length ms = Suc (length ms')" using Cons by simp
    note st = acquiring_stored [OF t(3) tk]
    have 1: "frames_captured ms s = length (decimate 0 ?P ?a ms)"
      using st f d by simp
    have 2: "buffer (vscope s') = buffer (fold capture (decimate 0 ?P ?a ms) (vscope s))"
      using st d by (simp add: v fold_capture_state)
    have 3: "index (vscope s') = index (fold capture (decimate 0 ?P ?a ms) (vscope s))"
      if "length ms \<le> ?a * ?P + 1"
    proof -
      from that have "length ms' < ticks_left s1 \<or> length ms' = ticks_left s1"
        using len t(5) by auto
      then have "index (vscope s') =
          index (fold capture (decimate (gate_wait s1) (gate_period s1) (frames_left s1) ms')
            (vscope s1))"
        using st by auto
      then show ?thesis using d by (simp add: v fold_capture_state)
    qed
    from 1 2 3 show ?thesis by blast
  qed
  from all show "frames_captured ms s = length (decimate 0 ?P ?a ms)"
    and "buffer (vscope s') = buffer (fold capture (decimate 0 ?P ?a ms) (vscope s))"
    by blast+
  from all show "index (vscope s') = index (fold capture (decimate 0 ?P ?a ms) (vscope s))"
    if "length ms \<le> ?a * ?P + 1"
    using that by blast
qed


section \<open>The cursor and the two entry points\<close>

lemma word16_succ:
  fixes x y :: uint16_t
  assumes "x < y"
  shows "unat (x + 1) = unat x + 1"
  using assms by unat_arith

lemma wrap_in_range:
  fixes i n :: uint16_t
  assumes "i < n"
  shows "(if i + 1 = n then 0 else i + 1) < n"
    and "unat (if i + 1 = n then 0 else i + 1) = (unat i + 1) mod unat n"
proof -
  have s: "unat (i + 1) = unat i + 1" using assms by (rule word16_succ)
  have lt: "unat i < unat n" using assms by (simp add: word_less_nat_alt)
  show "(if i + 1 = n then 0 else i + 1) < n"
  proof (cases "i + 1 = n")
    case True
    then show ?thesis using lt by (simp add: word_less_nat_alt)
  next
    case False
    then have "unat (i + 1) \<noteq> unat n" by (simp add: word_unat_eq_iff)
    then show ?thesis using False lt s by (simp add: word_less_nat_alt)
  qed
  show "unat (if i + 1 = n then 0 else i + 1) = (unat i + 1) mod unat n"
  proof (cases "i + 1 = n")
    case True
    then have "unat i + 1 = unat n" using s by simp
    then show ?thesis using True by simp
  next
    case False
    then have "unat (i + 1) \<noteq> unat n" by (simp add: word_unat_eq_iff)
    then have "unat i + 1 < unat n" using lt s by simp
    then show ?thesis using False s by simp
  qed
qed

lemma next_index_in_range:
  assumes "index v < buffer_size v"
  shows "next_index v < buffer_size v"
    and "unat (next_index v) = (unat (index v) + 1) mod unat (buffer_size v)"
  using wrap_in_range [OF assms] by (simp_all add: next_index_def)


lemma next_index_out_of_range:
  assumes "buffer_size v \<le> index v"
  shows "next_index v = index v + 1"
  using assms
  apply (simp add: next_index_def)
  apply unat_arith
  done

lemma zero_in_range:
  fixes x y :: uint16_t
  shows "x < y \<Longrightarrow> 0 < y"
  by unat_arith

lemma cursor_event:
  assumes "index (vscope s) < buffer_size (vscope s)" and "channels_bound (vscope s)"
  shows "\<exists>s'. apply_event e s = Some s' \<and>
      buffer_size (vscope s') = buffer_size (vscope s) \<and>
      index (vscope s') < buffer_size (vscope s') \<and> channels_bound (vscope s')"
proof (cases e)
  case Trigger
  then show ?thesis using assms
    by (simp add: vscopeTrigger_def)
next
  case (Tick m)
  note nx = next_index_in_range(1) [OF assms(1)] zero_in_range [OF assms(1)]
  show ?thesis
  proof (cases "qualifies s")
    case False
    then show ?thesis using Tick assms by (simp add: tick_gated)
  next
    case True
    show ?thesis
    proof (cases "state (vscope s)")
      case VSCOPE_HALTED
      then show ?thesis using Tick True assms nx
        by (simp add: tick_halted)
    next
      case VSCOPE_RUNNING
      then show ?thesis using Tick True assms nx
        by (simp add: tick_running split: VscopeState.split)
    next
      case VSCOPE_ACQUIRING
      then show ?thesis using Tick True assms nx
        by (cases "run_index s = acq_time (vscope s)")
           (simp_all add: tick_acquiring_done tick_acquiring_capture
             )
    next
      case VSCOPE_MISCONFIGURED
      then show ?thesis using Tick True assms by (simp add: tick_misconfigured)
    qed
  qed
qed

section \<open>The inert state\<close>



section \<open>Free running, gated ticks and the decimation counter\<close>






lemma tick_counter:
  assumes "vscopeAcquire m s = Some s'"
  shows "unat (acquire_divider s') < 65535"
proof (cases "qualifies s")
  case False
  then have "acquire_divider s + 1 < divider (vscope s)" by (simp add: qualifies_def)
  then have "unat (acquire_divider s + 1) < unat (divider (vscope s))"
    by (simp add: word_less_nat_alt)
  moreover have "s' = s\<lparr>acquire_divider := acquire_divider s + 1\<rparr>"
    using assms False by (simp add: tick_gated)
  ultimately show ?thesis using unat_max16 [of "divider (vscope s)"] by simp
next
  case True
  then have "acquire_divider s' = 0" using assms
    by (auto simp: vscopeAcquire_def qualifies_def Let_def
        split: VscopeState.splits if_splits)
  then show ?thesis by simp
qed

lemma reachable_counter:
  assumes "reachable s"
  shows "unat (acquire_divider s) < 65535"
  using assms
proof (induction rule: reachable.induct)
  case boot
  then show ?case by (simp add: power_on_def)
next
  case (init s w D M)
  then show ?case by (simp add: vscopeInit_fields)
next
  case (host s v)
  then show ?case by simp
next
  case (tick s m s')
  then show ?case using tick_counter by blast
next
  case (trigger s)
  then show ?case by (simp add: vscopeTrigger_def)
qed



section \<open>The divisor field\<close>

lemma tick_keeps_divider:
  assumes "vscopeAcquire m s = Some s'"
  shows "divider (vscope s') = divider (vscope s)"
  using assms
  by (auto simp: vscopeAcquire_def Let_def saveFrameToBuffer_eq
      split: VscopeState.splits if_splits)

lemma tick_set_divider:
  assumes "qualifies (set_divider d s)" and "qualifies (set_divider e s)"
  shows "vscopeAcquire m (set_divider d s) =
    map_option (set_divider d) (vscopeAcquire m (set_divider e s))"
  using assms
  by (cases "state (vscope s)"; cases "request (vscope s)")
     (simp_all add: vscopeAcquire_def qualifies_def set_divider_def Let_def
        saveFrameToBuffer_eq)

lemma set_divider_same:
  "divider (vscope s) = d \<Longrightarrow> set_divider d s = s"
  by (simp add: set_divider_def)

lemma gate_zero_one:
  assumes "unat (acquire_divider s) < 65535"
  shows "qualifies (set_divider 0 s)" and "qualifies (set_divider 1 s)"
    and "1 \<le> unat (acquire_divider s + 1)"
proof -
  have u: "unat (acquire_divider s + 1) = unat (acquire_divider s) + 1"
    using assms by (rule unat_succ16)
  then show "1 \<le> unat (acquire_divider s + 1)" by simp
  show "qualifies (set_divider 0 s)" by (simp add: qualifies_def set_divider_def)
  show "qualifies (set_divider 1 s)"
    using u by (simp add: qualifies_def set_divider_def word_less_nat_alt)
qed

lemma ticks_zero_one:
  assumes "unat (acquire_divider s) < 65535"
  shows "ticks ms (set_divider 0 s) = map_option (set_divider 0) (ticks ms (set_divider 1 s)) \<and>
    frames_captured ms (set_divider 0 s) = frames_captured ms (set_divider 1 s)"
  using assms
proof (induction ms arbitrary: s)
  case Nil
  then show ?case by (simp add: set_divider_def)
next
  case (Cons m ms)
  note g = gate_zero_one [OF Cons.prems]
  note t = tick_set_divider [OF g(1,2), of m]
  have c: "captures (set_divider 0 s) = captures (set_divider 1 s)"
    using g(1,2) by (simp add: captures_def) (simp add: set_divider_def)
  show ?case
  proof (cases "vscopeAcquire m (set_divider 1 s)")
    case None
    then show ?thesis using t c by simp
  next
    case (Some t1)
    from tick_keeps_divider [OF Some] have "divider (vscope t1) = 1"
      by (simp add: set_divider_def)
    then have same: "set_divider 1 t1 = t1" by (rule set_divider_same)
    have "unat (acquire_divider t1) < 65535" using Some by (rule tick_counter)
    from Cons.IH [OF this] same Some t c show ?thesis by simp
  qed
qed

section \<open>The concrete states\<close>

lemma example_init_fields:
  "state (vscope example_init) = VSCOPE_HALTED"
  "request (vscope example_init) = VSCOPE_HALTED"
  "buffer_size (vscope example_init) = 8"
  "acq_time (vscope example_init) = 8"
  "divider (vscope example_init) = 1"
  "index (vscope example_init) = 0"
  "first_element (vscope example_init) = 0"
  "buffer (vscope example_init) = (\<lambda>row ch. 0)"
  "acquire_divider example_init = 0"
  "run_index example_init = 0"
  "channels_bound (vscope example_init)"
  by (simp_all add: example_init_def vscopeInit_fields vscopeInit_bound
      power_on_def VSCOPE_NUM_CHANNELS_def)

lemma example_init_frame:
  "pre_trig (vscope example_init) = 0"
  "frame (vscope example_init) 2 = Some voltage_measurement"
  "frame (vscope example_init) 9 = Some phase"
  by (simp_all add: example_init_def vscopeInit_fields vscopeInit_frame)

text \<open>The initialised example state, field by field; evaluation starts from this equation.\<close>

lemma example_init_code [code]:
  "example_init =
     \<lparr>vscope = \<lparr>state = VSCOPE_HALTED, request = VSCOPE_HALTED, n_ch = 10, buffer_size = 8,
        pre_trig = 0, divider = 1, acq_time = 8, index = 0, first_element = 0,
        frame = (\<lambda>ch. None)(0 := Some voltage_setpoint, 1 := Some voltage_limit,
          2 := Some voltage_measurement, 3 := Some current_measurement,
          4 := Some voltage_limit, 5 := Some temperature, 6 := Some frequency,
          7 := Some duration, 8 := Some threshold, 9 := Some phase),
        buffer = (\<lambda>row ch. 0)\<rparr>,
      acquire_divider = 0, run_index = 0\<rparr>"
  by (simp add: example_init_def vscopeInit_def power_on_def CONFIGURE_CHANNEL_def Let_def
      VSCOPE_NUM_CHANNELS_def)

lemma example_halted_fields:
  "state (vscope example_halted) = VSCOPE_HALTED"
  "request (vscope example_halted) = VSCOPE_RUNNING"
  "qualifies example_halted"
  "channels_bound (vscope example_halted)"
  by (simp_all add: example_halted_def set_request_def example_init_fields qualifies_def)

lemma example_running_fields:
  "state (vscope example_running) = VSCOPE_RUNNING"
  "request (vscope example_running) = VSCOPE_RUNNING"
  "qualifies example_running"
  "channels_bound (vscope example_running)"
  "index (vscope example_running) = 0"
  "buffer_size (vscope example_running) = 8"
  by (simp_all add: example_running_def example_halted_def set_request_def example_init_fields qualifies_def)

lemma example_halt_requested_fields:
  "state (vscope example_halt_requested) = VSCOPE_RUNNING"
  "request (vscope example_halt_requested) = VSCOPE_HALTED"
  "qualifies example_halt_requested"
  "channels_bound (vscope example_halt_requested)"
  "index (vscope example_halt_requested) = 0"
  "buffer_size (vscope example_halt_requested) = 8"
  by (simp_all add: example_halt_requested_def set_request_def example_running_fields
      qualifies_def)
     (simp_all add: example_running_def example_halted_def set_request_def example_init_fields)

lemma example_triggered_fields:
  "state (vscope example_triggered) = VSCOPE_RUNNING"
  "request (vscope example_triggered) = VSCOPE_ACQUIRING"
  "acq_time (vscope example_triggered) = 8"
  "buffer_size (vscope example_triggered) = 8"
  "index (vscope example_triggered) = 0"
  "qualifies example_triggered"
  "channels_bound (vscope example_triggered)"
  "gate_period example_triggered = 1"
  by (simp_all add: example_triggered_def vscopeTrigger_def example_running_fields
      qualifies_def gate_period_def)
     (simp_all add: example_running_def example_halted_def set_request_def example_init_fields)



lemma example_running_reachable: "reachable example_running"
proof -
  have "reachable example_init" unfolding example_init_def by (intro reachable.init reachable.boot)
  then have "reachable example_halted"
    unfolding example_halted_def set_request_def by (rule reachable.host)
  then show ?thesis unfolding example_running_def by (rule reachable.host)
qed

lemma example_first_tick:
  "vscopeAcquire m example_halted = Some example_running"
proof -
  have "vscopeAcquire m example_halted =
      Some (example_halted\<lparr>acquire_divider := 0,
        vscope := (vscope example_halted)\<lparr>index := 0, state := VSCOPE_RUNNING\<rparr>\<rparr>)"
    by (simp add: tick_halted example_halted_fields)
  moreover have "acquire_divider example_halted = 0" "index (vscope example_halted) = 0"
    by (simp_all add: example_halted_def set_request_def example_init_fields)
  ultimately show ?thesis by (simp add: example_running_def)
qed

lemma cursor_after_example:
  "cursor_after 1 8 0 = 1" "cursor_after 8 8 0 = 0"
  by code_simp+

section \<open>The trigger\<close>

text \<open>
  C8. \<open>vscopeTrigger\<close> called in state Running sets the request to Acquiring and changes
  nothing else; called in state Halted, Acquiring or Misconfigured it changes nothing at all.
\<close>

theorem vscopeTrigger_effect:
  "(state (vscope s) = VSCOPE_RUNNING \<longrightarrow>
      vscopeTrigger s = s\<lparr>vscope := (vscope s)\<lparr>request := VSCOPE_ACQUIRING\<rparr>\<rparr>) \<and>
   (state (vscope s) \<in> {VSCOPE_HALTED, VSCOPE_ACQUIRING, VSCOPE_MISCONFIGURED} \<longrightarrow>
      vscopeTrigger s = s)"
  by (auto simp: vscopeTrigger_def)

theorem vscopeTrigger_effect_witness:
  "state (vscope example_running) = VSCOPE_RUNNING \<and>
   vscopeTrigger example_running = set_request VSCOPE_ACQUIRING example_running \<and>
   state (vscope example_halted) \<in> {VSCOPE_HALTED, VSCOPE_ACQUIRING, VSCOPE_MISCONFIGURED} \<and>
   vscopeTrigger example_halted = example_halted"
  using vscopeTrigger_effect [of example_running] vscopeTrigger_effect [of example_halted]
  by (simp add: example_running_fields example_halted_fields set_request_def)

section \<open>Ticks in state Halted\<close>

text \<open>
  C7. Every qualifying tick taken in state Halted resets the write cursor to 0 and leaves the
  buffer alone. With the request at Running the state becomes Running on that tick, and the
  next qualifying tick, with every channel slot bound, stores its frame in row 0 of the
  buffer.
\<close>

theorem halted_tick_resets_cursor:
  assumes "state (vscope s) = VSCOPE_HALTED" and "qualifies s"
  shows "\<exists>s'. vscopeAcquire m s = Some s' \<and>
      index (vscope s') = 0 \<and>
      buffer (vscope s') = buffer (vscope s) \<and>
      state (vscope s') =
        (if request (vscope s) = VSCOPE_RUNNING then VSCOPE_RUNNING else VSCOPE_HALTED) \<and>
      (request (vscope s) = VSCOPE_RUNNING \<longrightarrow>
         (\<forall>t m'. vscope t = vscope s' \<and> qualifies t \<and> channels_bound (vscope t) \<longrightarrow>
            (\<exists>t'. vscopeAcquire m' t = Some t' \<and>
               (\<forall>i < VSCOPE_NUM_CHANNELS.
                  buffer (vscope t') 0 i = m' (the (frame (vscope s) i))))))"
  using assms
  apply (simp add: tick_halted)
  apply (clarsimp simp: tick_running split: VscopeState.splits)
  apply (simp add: store_frame_def)
  done


theorem halted_tick_resets_cursor_witness:
  "state (vscope example_halted) = VSCOPE_HALTED \<and> qualifies example_halted \<and>
   request (vscope example_halted) = VSCOPE_RUNNING \<and>
   qualifies example_running \<and> channels_bound (vscope example_running) \<and>
   map_option (index \<circ> vscope) (vscopeAcquire example_memory example_halted) = Some 0 \<and>
   map_option (state \<circ> vscope) (vscopeAcquire example_memory example_halted) =
     Some VSCOPE_RUNNING \<and>
   map_option (\<lambda>t. buffer (vscope t) 0 9) (vscopeAcquire example_memory example_running) =
     Some (example_memory phase)"
proof -
  have h: "state (vscope example_halted) = VSCOPE_HALTED" "qualifies example_halted"
    by (simp_all add: example_halted_fields)
  from halted_tick_resets_cursor [OF h, of example_memory]
  obtain s' where s': "vscopeAcquire example_memory example_halted = Some s'"
    "index (vscope s') = 0"
    "state (vscope s') = VSCOPE_RUNNING"
    and run: "\<forall>t m'. vscope t = vscope s' \<and> qualifies t \<and> channels_bound (vscope t) \<longrightarrow>
            (\<exists>t'. vscopeAcquire m' t = Some t' \<and>
               (\<forall>i < VSCOPE_NUM_CHANNELS.
                  buffer (vscope t') 0 i = m' (the (frame (vscope example_halted) i))))"
    by (auto simp: example_halted_fields)
  from s'(1) have eq: "s' = example_running" by (simp add: example_first_tick)
  from run [rule_format, of example_running example_memory] eq
  obtain t' where "vscopeAcquire example_memory example_running = Some t'"
    "\<forall>i < VSCOPE_NUM_CHANNELS.
        buffer (vscope t') 0 i = example_memory (the (frame (vscope example_halted) i))"
    by (auto simp: example_running_fields)
  moreover have "frame (vscope example_halted) 9 = Some phase"
    by (simp add: example_halted_def set_request_def example_init_frame)
  ultimately show ?thesis using s'
    by (simp add: example_halted_fields example_running_fields VSCOPE_NUM_CHANNELS_def)
qed

section \<open>Ticks in state Running that stop the capture\<close>

text \<open>
  C3, as the specification states it: a qualifying tick in state Running with the request at
  Halted leaves the buffer and the write cursor as they were. It fails in the example, where the
  cursor moves from 0 to 1 and row 0 receives the frame.
\<close>

theorem halt_request_keeps_buffer_counterexample:
  "map_option (index \<circ> vscope) (vscopeAcquire example_memory example_halt_requested) \<noteq>
     Some (index (vscope example_halt_requested)) \<and>
   map_option (cell 0 0) (vscopeAcquire example_memory example_halt_requested) \<noteq>
     Some (cell 0 0 example_halt_requested)"
  by code_simp

text \<open>
  C3, amended. On a qualifying tick in state Running with the request at Halted and every
  channel slot bound, the state becomes Halted and one frame is captured on that tick: the
  row at the write cursor receives the current channel values and the cursor advances by
  one, going back to 0 when it reaches \<^verbatim>\<open>buffer_size\<close>.
\<close>

theorem halt_request_captures:
  assumes "qualifies s" and "state (vscope s) = VSCOPE_RUNNING"
    and "request (vscope s) = VSCOPE_HALTED" and "channels_bound (vscope s)"
  shows "vscopeAcquire m s =
    Some (s\<lparr>acquire_divider := 0,
            vscope := (vscope s)\<lparr>state := VSCOPE_HALTED,
              buffer := store_frame m (vscope s), index := next_index (vscope s)\<rparr>\<rparr>)"
  using assms by (simp add: tick_running)

theorem halt_request_captures_witness:
  "qualifies example_halt_requested \<and>
   state (vscope example_halt_requested) = VSCOPE_RUNNING \<and>
   request (vscope example_halt_requested) = VSCOPE_HALTED \<and>
   channels_bound (vscope example_halt_requested) \<and>
   map_option (state \<circ> vscope) (vscopeAcquire example_memory example_halt_requested) =
     Some VSCOPE_HALTED \<and>
   map_option (index \<circ> vscope) (vscopeAcquire example_memory example_halt_requested) = Some 1"
proof -
  have h: "qualifies example_halt_requested"
    "state (vscope example_halt_requested) = VSCOPE_RUNNING"
    "request (vscope example_halt_requested) = VSCOPE_HALTED"
    "channels_bound (vscope example_halt_requested)"
    by (simp_all add: example_halt_requested_fields)
  show ?thesis
    using h halt_request_captures [OF h, of example_memory]
    by (simp add: next_index_def example_halt_requested_fields)
qed

text \<open>
  C2. A qualifying tick in state Running with the request at Acquiring and \<^verbatim>\<open>acq_time\<close>
  equal to 0 sets the state to Halted and \<^verbatim>\<open>first_element\<close> to the cursor, and then
  reaches the call of \<^verbatim>\<open>saveFrameToBuffer\<close> all the same. In the example the cursor is at
  row 3: the tick records \<^verbatim>\<open>first_element = 3\<close>, overwrites row 3 with the newest frame
  and leaves the cursor at 4, whereas the terminal tick of state Acquiring records the cursor
  and captures nothing.
\<close>

theorem zero_window_tick_captures:
  "cell 3 0 example_zero_window = 0 \<and>
   map_option (state \<circ> vscope) (vscopeAcquire example_memory example_zero_window) =
     Some VSCOPE_HALTED \<and>
   map_option (first_element \<circ> vscope) (vscopeAcquire example_memory example_zero_window) =
     Some 3 \<and>
   map_option (index \<circ> vscope) (vscopeAcquire example_memory example_zero_window) = Some 4 \<and>
   map_option (cell 3 0) (vscopeAcquire example_memory example_zero_window) =
     Some (example_memory voltage_setpoint)"
  by code_simp


section \<open>The acquisition window\<close>

text \<open>
  C1. An acquisition is entered by a qualifying tick in state Running with the request at
  Acquiring and \<^verbatim>\<open>acq_time\<close> greater than 0 (every channel slot bound). That tick captures
  a frame and arms the run counter at 1. From then on the state is Acquiring and the run
  counter equals the number of frames captured, for \<open>acq_time * gate_period\<close> ticks in all,
  at the end of which exactly \<^verbatim>\<open>acq_time\<close> frames have been captured and the counter has
  reached \<^verbatim>\<open>acq_time\<close>. The next tick is the terminal one: it captures no frame and leaves
  buffer and cursor as they were, the state becomes Halted, and \<^verbatim>\<open>first_element\<close> is the
  cursor, which is the cursor after \<^verbatim>\<open>acq_time\<close> captures. No later tick captures a
  frame. The frames captured are the ones of the ticks that the gate lets through, the
  transition tick first and \<^verbatim>\<open>acq_time\<close> of them at most: at every moment the buffer is the
  buffer before the transition tick with those frames stored one after the other, each in
  the row at the cursor, and up to the terminal tick the cursor is the one that these
  captures leave.
\<close>

theorem acquisition_window:
  assumes "state (vscope s) = VSCOPE_RUNNING" and "request (vscope s) = VSCOPE_ACQUIRING"
    and "acq_time (vscope s) \<noteq> 0" and "qualifies s" and "channels_bound (vscope s)"
  shows "\<exists>s'. ticks ms s = Some s' \<and>
      frames_captured ms s \<le> unat (acq_time (vscope s)) \<and>
      frames_captured ms s =
        length (decimate 0 (gate_period s) (unat (acq_time (vscope s))) ms) \<and>
      buffer (vscope s') =
        buffer (fold capture (decimate 0 (gate_period s) (unat (acq_time (vscope s))) ms)
          (vscope s)) \<and>
      (length ms \<le> unat (acq_time (vscope s)) * gate_period s + 1 \<longrightarrow>
         index (vscope s') =
           index (fold capture (decimate 0 (gate_period s) (unat (acq_time (vscope s))) ms)
             (vscope s))) \<and>
      (length ms = 1 \<longrightarrow>
         state (vscope s') = VSCOPE_ACQUIRING \<and> run_index s' = 1 \<and>
         frames_captured ms s = 1) \<and>
      (0 < length ms \<and> length ms \<le> unat (acq_time (vscope s)) * gate_period s \<longrightarrow>
         state (vscope s') = VSCOPE_ACQUIRING \<and>
         unat (run_index s') = frames_captured ms s) \<and>
      (length ms = unat (acq_time (vscope s)) * gate_period s + 1 \<longrightarrow>
         state (vscope s') = VSCOPE_HALTED \<and>
         frames_captured ms s = unat (acq_time (vscope s)) \<and>
         frames_captured (butlast ms) s = unat (acq_time (vscope s)) \<and>
         map_option run_index (ticks (butlast ms) s) = Some (acq_time (vscope s)) \<and>
         map_option (index \<circ> vscope) (ticks (butlast ms) s) = Some (index (vscope s')) \<and>
         map_option (buffer \<circ> vscope) (ticks (butlast ms) s) = Some (buffer (vscope s')) \<and>
         first_element (vscope s') = index (vscope s') \<and>
         index (vscope s') =
           cursor_after (unat (acq_time (vscope s))) (buffer_size (vscope s))
             (index (vscope s))) \<and>
      (unat (acq_time (vscope s)) * gate_period s < length ms \<longrightarrow>
         state (vscope s') = VSCOPE_HALTED \<and>
         frames_captured ms s = unat (acq_time (vscope s)))"
proof -
  let ?a = "unat (acq_time (vscope s))" and ?T = "unat (acq_time (vscope s)) * gate_period s"
  from triggered_run [OF assms, of ms] obtain s' where s': "ticks ms s = Some s'"
    "frames_captured ms s \<le> ?a"
    "0 < length ms \<and> length ms \<le> ?T \<longrightarrow>
         state (vscope s') = VSCOPE_ACQUIRING \<and> unat (run_index s') = frames_captured ms s"
    "length ms = ?T + 1 \<longrightarrow>
         first_element (vscope s') = index (vscope s') \<and>
         index (vscope s') = cursor_after ?a (buffer_size (vscope s)) (index (vscope s))"
    "?T < length ms \<longrightarrow>
         state (vscope s') = VSCOPE_HALTED \<and> frames_captured ms s = ?a"
    by blast
  have pos: "0 < ?T" using assms(3) by (simp add: unat_gt_0 gate_period_def)
  have one: "state (vscope s') = VSCOPE_ACQUIRING \<and> run_index s' = 1 \<and>
         frames_captured ms s = 1" if "length ms = 1"
  proof -
    from that obtain m where m: "ms = [m]" by (cases ms) auto
    have "captures s" using assms(1,4) by (simp add: captures_def)
    moreover have "vscopeAcquire m s \<noteq> None" using assms by (simp add: tick_running)
    ultimately have "frames_captured ms s = 1" using m by auto
    moreover have "unat (run_index s') = 1 \<Longrightarrow> run_index s' = 1"
      by (simp add: word_unat_eq_iff)
    ultimately show ?thesis using s'(3) that pos by simp
  qed
  have last: "frames_captured (butlast ms) s = ?a \<and>
         map_option run_index (ticks (butlast ms) s) = Some (acq_time (vscope s)) \<and>
         map_option (index \<circ> vscope) (ticks (butlast ms) s) = Some (index (vscope s')) \<and>
         map_option (buffer \<circ> vscope) (ticks (butlast ms) s) = Some (buffer (vscope s'))"
    if "length ms = ?T + 1"
  proof -
    from that have ms: "ms = butlast ms @ [last ms]" and len: "length (butlast ms) = ?T"
      by (cases ms rule: rev_cases; simp)+
    from triggered_run [OF assms, of "butlast ms"] len pos
    obtain t where t: "ticks (butlast ms) s = Some t"
      "state (vscope t) = VSCOPE_ACQUIRING" "acq_time (vscope t) = acq_time (vscope s)"
      "run_index t = acq_time (vscope s)" "qualifies t" "frames_captured (butlast ms) s = ?a"
      by auto
    have "vscopeAcquire (last ms) t =
      Some (t\<lparr>acquire_divider := 0,
              vscope := (vscope t)\<lparr>state := VSCOPE_HALTED,
                first_element := index (vscope t)\<rparr>\<rparr>)"
      using t(2-5) by (simp add: tick_acquiring_done)
    moreover have "ticks ms s = (case ticks (butlast ms) s of None \<Rightarrow> None
        | Some t \<Rightarrow> vscopeAcquire (last ms) t)"
      using ticks_snoc [of "butlast ms" "last ms" s] ms by simp
    ultimately have "s' = t\<lparr>acquire_divider := 0,
              vscope := (vscope t)\<lparr>state := VSCOPE_HALTED,
                first_element := index (vscope t)\<rparr>\<rparr>"
      using s'(1) t(1) by simp
    then show ?thesis using t by simp
  qed
  note st = triggered_stored [OF assms s'(1)]
  from s' one last st show ?thesis by auto
qed


theorem acquisition_window_witness:
  "state (vscope example_triggered) = VSCOPE_RUNNING \<and>
   request (vscope example_triggered) = VSCOPE_ACQUIRING \<and>
   acq_time (vscope example_triggered) \<noteq> 0 \<and>
   qualifies example_triggered \<and> channels_bound (vscope example_triggered) \<and>
   unat (acq_time (vscope example_triggered)) * gate_period example_triggered = 8 \<and>
   map_option (state \<circ> vscope) (ticks (replicate 1 example_memory) example_triggered) =
     Some VSCOPE_ACQUIRING \<and>
   map_option run_index (ticks (replicate 1 example_memory) example_triggered) = Some 1 \<and>
   frames_captured (replicate 1 example_memory) example_triggered = 1 \<and>
   map_option (cell 0 0) (ticks (replicate 1 example_memory) example_triggered) =
     Some (example_memory voltage_setpoint) \<and>
   map_option (cell 1 0) (ticks (replicate 1 example_memory) example_triggered) = Some 0 \<and>
   map_option (state \<circ> vscope) (ticks (replicate 8 example_memory) example_triggered) =
     Some VSCOPE_ACQUIRING \<and>
   map_option (unat \<circ> run_index) (ticks (replicate 8 example_memory) example_triggered) =
     Some (frames_captured (replicate 8 example_memory) example_triggered) \<and>
   map_option (state \<circ> vscope) (ticks (replicate 9 example_memory) example_triggered) =
     Some VSCOPE_HALTED \<and>
   frames_captured (replicate 9 example_memory) example_triggered = 8 \<and>
   frames_captured (butlast (replicate 9 example_memory)) example_triggered = 8 \<and>
   map_option (first_element \<circ> vscope)
     (ticks (replicate 9 example_memory) example_triggered) = Some 0 \<and>
   map_option (cell 7 9) (ticks (replicate 9 example_memory) example_triggered) =
     Some (example_memory phase) \<and>
   map_option (state \<circ> vscope) (ticks (replicate 12 example_memory) example_triggered) =
     Some VSCOPE_HALTED \<and>
   frames_captured (replicate 12 example_memory) example_triggered = 8"
proof -
  have h: "state (vscope example_triggered) = VSCOPE_RUNNING"
    "request (vscope example_triggered) = VSCOPE_ACQUIRING"
    "acq_time (vscope example_triggered) \<noteq> 0"
    "qualifies example_triggered" "channels_bound (vscope example_triggered)"
    by (simp_all add: example_triggered_fields)
  have T: "unat (acq_time (vscope example_triggered)) * gate_period example_triggered = 8"
    by (simp add: example_triggered_fields)
  have a: "unat (acq_time (vscope example_triggered)) = 8"
    "gate_period example_triggered = 1"
    by (simp_all add: example_triggered_fields)
  have c: "buffer (fold capture (decimate 0 1 8 (replicate 1 example_memory))
        (vscope example_triggered)) 0 0 = example_memory voltage_setpoint"
    "buffer (fold capture (decimate 0 1 8 (replicate 1 example_memory))
        (vscope example_triggered)) 1 0 = 0"
    "buffer (fold capture (decimate 0 1 8 (replicate 9 example_memory))
        (vscope example_triggered)) 7 9 = example_memory phase"
    by code_simp+
  note w = acquisition_window [OF h, unfolded T a]
  from w [of "replicate 1 example_memory"]
  obtain s1 where s1: "ticks (replicate 1 example_memory) example_triggered = Some s1"
    "state (vscope s1) = VSCOPE_ACQUIRING" "run_index s1 = 1"
    "frames_captured (replicate 1 example_memory) example_triggered = 1"
    "buffer (vscope s1) = buffer (fold capture (decimate 0 1 8 (replicate 1 example_memory))
        (vscope example_triggered))"
    by (auto simp del: replicate.simps ticks.simps frames_captured.simps decimate.simps)
  from w [of "replicate 8 example_memory"]
  obtain s8 where s8: "ticks (replicate 8 example_memory) example_triggered = Some s8"
    "state (vscope s8) = VSCOPE_ACQUIRING"
    "unat (run_index s8) = frames_captured (replicate 8 example_memory) example_triggered"
    by (auto simp del: replicate.simps ticks.simps frames_captured.simps decimate.simps)
  from w [of "replicate 9 example_memory"]
  obtain s9 where s9: "ticks (replicate 9 example_memory) example_triggered = Some s9"
    "state (vscope s9) = VSCOPE_HALTED"
    "frames_captured (replicate 9 example_memory) example_triggered = 8"
    "frames_captured (butlast (replicate 9 example_memory)) example_triggered = 8"
    "first_element (vscope s9) =
       cursor_after 8 (buffer_size (vscope example_triggered)) (index (vscope example_triggered))"
    "buffer (vscope s9) = buffer (fold capture (decimate 0 1 8 (replicate 9 example_memory))
        (vscope example_triggered))"
    by (auto simp del: replicate.simps ticks.simps frames_captured.simps decimate.simps)
  from w [of "replicate 12 example_memory"]
  obtain s12 where s12: "ticks (replicate 12 example_memory) example_triggered = Some s12"
    "state (vscope s12) = VSCOPE_HALTED"
    "frames_captured (replicate 12 example_memory) example_triggered = 8"
    by (auto simp del: replicate.simps ticks.simps frames_captured.simps decimate.simps)
  from h T s1 s8 s9 s12 c show ?thesis
    by (simp add: example_triggered_fields cursor_after_example cell_def
        del: replicate.simps ticks.simps frames_captured.simps decimate.simps)
qed


section \<open>The worked example\<close>

text \<open>
  C4, as the specification states it: in the worked example the first tick, taken in state Halted with
  the request at Running, leaves the cursor at 1. It leaves the cursor at 0: the Halted case
  resets the cursor and captures nothing.
\<close>

theorem worked_example_counterexample:
  "map_option (index \<circ> vscope) (vscopeAcquire example_memory example_halted) \<noteq> Some 1"
  by (simp add: example_first_tick example_running_fields)

text \<open>
  C4, amended. With a buffer of 8 rows, divisor 1 and no pre-trigger samples, \<^verbatim>\<open>acq_time\<close> is
  8. Starting Halted with the request set to Running, one tick gives state Running and cursor
  0. The trigger sets the request to Acquiring. The next tick gives state Acquiring with one
  frame captured, cursor 1 and run counter 1. After 7 more ticks 8 frames have been captured
  since arming, the run counter is 8, the cursor is 8 mod 8 = 0 and the state is still
  Acquiring. One further tick captures nothing and gives state Halted with cursor 0 and
  \<^verbatim>\<open>first_element\<close> 0.
\<close>

theorem worked_example:
  "state (vscope example_init) = VSCOPE_HALTED \<and>
   buffer_size (vscope example_init) = 8 \<and> divider (vscope example_init) = 1 \<and>
   pre_trig (vscope example_init) = 0 \<and> acq_time (vscope example_init) = 8 \<and>
   example_halted = set_request VSCOPE_RUNNING example_init \<and>
   vscopeAcquire example_memory example_halted = Some example_running \<and>
   state (vscope example_running) = VSCOPE_RUNNING \<and>
   index (vscope example_running) = 0 \<and>
   example_triggered = vscopeTrigger example_running \<and>
   request (vscope example_triggered) = VSCOPE_ACQUIRING \<and>
   (\<exists>s1. ticks [example_memory] example_triggered = Some s1 \<and>
      state (vscope s1) = VSCOPE_ACQUIRING \<and>
      frames_captured [example_memory] example_triggered = 1 \<and>
      index (vscope s1) = 1 \<and> run_index s1 = 1) \<and>
   (\<exists>s8. ticks (example_memory # replicate 7 example_memory) example_triggered = Some s8 \<and>
      state (vscope s8) = VSCOPE_ACQUIRING \<and>
      frames_captured (example_memory # replicate 7 example_memory) example_triggered = 8 \<and>
      index (vscope s8) = 0 \<and> run_index s8 = 8) \<and>
   (\<exists>s9. ticks (example_memory # replicate 8 example_memory) example_triggered = Some s9 \<and>
      state (vscope s9) = VSCOPE_HALTED \<and>
      frames_captured (example_memory # replicate 8 example_memory) example_triggered = 8 \<and>
      index (vscope s9) = 0 \<and> first_element (vscope s9) = 0)"
proof -
  have nz: "acq_time (vscope example_triggered) \<noteq> 0" by (simp add: example_triggered_fields)
  note run = triggered_run [OF example_triggered_fields(1,2) nz example_triggered_fields(6,7)]
  have T: "unat (acq_time (vscope example_triggered)) * gate_period example_triggered = 8"
    by (simp add: example_triggered_fields)
  have w: "unat x = 1 \<Longrightarrow> x = 1" "unat x = 8 \<Longrightarrow> x = 8" for x :: uint16_t
    by (simp_all add: word_unat_eq_iff)
  have f1: "frames_captured [example_memory] example_triggered = 1"
    using example_triggered_fields
    by (simp add: captures_def tick_running)
  have 1: "\<exists>s1. ticks [example_memory] example_triggered = Some s1 \<and>
      state (vscope s1) = VSCOPE_ACQUIRING \<and>
      frames_captured [example_memory] example_triggered = 1 \<and>
      index (vscope s1) = 1 \<and> run_index s1 = 1"
  proof -
    from run [of "[example_memory]"] T f1
    obtain s1 where "ticks [example_memory] example_triggered = Some s1"
      "state (vscope s1) = VSCOPE_ACQUIRING" "unat (run_index s1) = 1"
      "index (vscope s1) = cursor_after 1 (buffer_size (vscope example_triggered))
         (index (vscope example_triggered))"
      by auto
    then show ?thesis using f1 w(1) [of "run_index s1"]
      by (simp add: example_triggered_fields cursor_after_example)
  qed
  have 8: "\<exists>s8. ticks (example_memory # replicate 7 example_memory) example_triggered = Some s8 \<and>
      state (vscope s8) = VSCOPE_ACQUIRING \<and>
      frames_captured (example_memory # replicate 7 example_memory) example_triggered = 8 \<and>
      index (vscope s8) = 0 \<and> run_index s8 = 8"
  proof -
    let ?ms = "example_memory # replicate 7 example_memory"
    have l: "length ?ms = 8" by simp
    from run [of ?ms] T l
    obtain s8 where "ticks ?ms example_triggered = Some s8"
      "state (vscope s8) = VSCOPE_ACQUIRING"
      "run_index s8 = acq_time (vscope example_triggered)"
      "frames_captured ?ms example_triggered = unat (acq_time (vscope example_triggered))"
      "index (vscope s8) = cursor_after (frames_captured ?ms example_triggered)
         (buffer_size (vscope example_triggered)) (index (vscope example_triggered))"
      by (auto simp del: ticks.simps frames_captured.simps)
    then show ?thesis
      by (simp add: example_triggered_fields cursor_after_example
          del: ticks.simps frames_captured.simps)
  qed
  have 9: "\<exists>s9. ticks (example_memory # replicate 8 example_memory) example_triggered = Some s9 \<and>
      state (vscope s9) = VSCOPE_HALTED \<and>
      frames_captured (example_memory # replicate 8 example_memory) example_triggered = 8 \<and>
      index (vscope s9) = 0 \<and> first_element (vscope s9) = 0"
  proof -
    let ?ms = "example_memory # replicate 8 example_memory"
    have l: "length ?ms = 9" by simp
    from run [of ?ms] T l
    obtain s9 where "ticks ?ms example_triggered = Some s9"
      "state (vscope s9) = VSCOPE_HALTED"
      "first_element (vscope s9) = index (vscope s9)"
      "frames_captured ?ms example_triggered = unat (acq_time (vscope example_triggered))"
      "index (vscope s9) = cursor_after (unat (acq_time (vscope example_triggered)))
         (buffer_size (vscope example_triggered)) (index (vscope example_triggered))"
      by (auto simp del: ticks.simps frames_captured.simps)
    then show ?thesis
      by (simp add: example_triggered_fields cursor_after_example
          del: ticks.simps frames_captured.simps)
  qed
  have 0: "state (vscope example_init) = VSCOPE_HALTED"
   "buffer_size (vscope example_init) = 8" "divider (vscope example_init) = 1"
   "pre_trig (vscope example_init) = 0" "acq_time (vscope example_init) = 8"
   "vscopeAcquire example_memory example_halted = Some example_running"
   "state (vscope example_running) = VSCOPE_RUNNING"
   "index (vscope example_running) = 0"
   "request (vscope example_triggered) = VSCOPE_ACQUIRING"
    by (simp_all add: example_init_fields example_init_frame example_first_tick
        example_running_fields example_triggered_fields)
  note d = example_halted_def example_triggered_def
  from 0 d 1 8 9 show ?thesis by (intro conjI)
qed


section \<open>Initialisation and the Misconfigured state\<close>

text \<open>
  C5, as the specification states it: \<open>vscopeInit\<close> leaves the state at Misconfigured
  whenever the default buffer size times the channel count exceeds the storage budget. With
  32-bit unsigned integers, a default buffer size of 429496730 and a budget of 80 the product
  4294967300 exceeds the budget, but the C product wraps to 4 and the state stays Halted; with
  16-bit unsigned integers the same happens at a default buffer size of 6554.
\<close>

theorem init_capacity_check_counterexample:
  "80 < 429496730 * VSCOPE_NUM_CHANNELS \<and>
   state (vscope (vscopeInit 32 429496730 80 power_on)) = VSCOPE_HALTED \<and>
   80 < 6554 * VSCOPE_NUM_CHANNELS \<and>
   state (vscope (vscopeInit 16 6554 80 power_on)) = VSCOPE_HALTED"
  by (simp add: vscopeInit_fields VSCOPE_NUM_CHANNELS_def)



section \<open>The cursor stays in range\<close>

text \<open>
  C9. When the write cursor is below \<^verbatim>\<open>buffer_size\<close> (so that \<^verbatim>\<open>buffer_size\<close> is at
  least 1) and every channel slot is bound, a tick or a trigger, and any sequence of them,
  leaves \<^verbatim>\<open>buffer_size\<close> as it was and the cursor below it.
\<close>

theorem cursor_stays_in_range:
  assumes "index (vscope s) < buffer_size (vscope s)" and "channels_bound (vscope s)"
  shows "(\<exists>s'. apply_event e s = Some s' \<and>
            buffer_size (vscope s') = buffer_size (vscope s) \<and>
            index (vscope s') < buffer_size (vscope s')) \<and>
         (\<exists>s'. run evs s = Some s' \<and>
            buffer_size (vscope s') = buffer_size (vscope s) \<and>
            index (vscope s') < buffer_size (vscope s'))"
proof
  show "\<exists>s'. apply_event e s = Some s' \<and>
            buffer_size (vscope s') = buffer_size (vscope s) \<and>
            index (vscope s') < buffer_size (vscope s')"
    using cursor_event [OF assms, of e] by blast
  show "\<exists>s'. run evs s = Some s' \<and>
            buffer_size (vscope s') = buffer_size (vscope s) \<and>
            index (vscope s') < buffer_size (vscope s')"
    using assms
  proof (induction evs arbitrary: s)
    case Nil
    then show ?case by simp
  next
    case (Cons a evs)
    from cursor_event [OF Cons.prems, of a]
    obtain s1 where s1: "apply_event a s = Some s1"
      "buffer_size (vscope s1) = buffer_size (vscope s)"
      "index (vscope s1) < buffer_size (vscope s1)" "channels_bound (vscope s1)"
      by blast
    from Cons.IH [OF s1(3,4)] s1(1,2) show ?case by auto
  qed
qed

theorem cursor_stays_in_range_witness:
  "index (vscope example_running) < buffer_size (vscope example_running) \<and>
   channels_bound (vscope example_running) \<and>
   map_option (index \<circ> vscope) (apply_event (Tick example_memory) example_running) = Some 1 \<and>
   map_option (buffer_size \<circ> vscope)
     (run [Tick example_memory, Trigger, Tick example_memory] example_running) = Some 8 \<and>
   map_option (index \<circ> vscope)
     (run [Tick example_memory, Trigger, Tick example_memory] example_running) = Some 2"
proof -
  have h: "index (vscope example_running) < buffer_size (vscope example_running)"
    "channels_bound (vscope example_running)"
    by (simp_all add: example_running_fields)
  have v: "map_option (index \<circ> vscope) (apply_event (Tick example_memory) example_running) = Some 1"
    "map_option (buffer_size \<circ> vscope)
     (run [Tick example_memory, Trigger, Tick example_memory] example_running) = Some 8"
    "map_option (index \<circ> vscope)
     (run [Tick example_memory, Trigger, Tick example_memory] example_running) = Some 2"
    by code_simp+
  show ?thesis
    using h v cursor_stays_in_range [OF h, of "Tick example_memory"
        "[Tick example_memory, Trigger, Tick example_memory]"]
    by simp
qed


section \<open>Free-running capture and decimation\<close>

text \<open>
  C6, as the specification states it: in state Running with the request left at Running,
  every qualifying tick advances the write cursor by one modulo the buffer capacity. The host
  may write \<^verbatim>\<open>buffer_size\<close> at any time, and the wrap test of \<^verbatim>\<open>saveFrameToBuffer\<close>
  compares with \<^verbatim>\<open>==\<close>: once the host has shrunk the buffer of the running example to 8
  rows with the cursor at row 9, a qualifying tick moves the cursor to 10, not to
  \<open>(9 + 1) mod 8 = 2\<close>.
\<close>

theorem running_capture_counterexample:
  "map_option (state \<circ> vscope) example_shrunk = Some VSCOPE_RUNNING \<and>
   map_option (request \<circ> vscope) example_shrunk = Some VSCOPE_RUNNING \<and>
   map_option qualifies example_shrunk = Some True \<and>
   map_option (channels_bound \<circ> vscope) example_shrunk = Some True \<and>
   map_option (unat \<circ> buffer_size \<circ> vscope) example_shrunk = Some 8 \<and>
   map_option (unat \<circ> index \<circ> vscope) example_shrunk = Some 9 \<and>
   map_option (unat \<circ> index \<circ> vscope)
     (Option.bind example_shrunk (vscopeAcquire example_memory)) = Some 10 \<and>
   (9 + 1) mod 8 \<noteq> (10 :: nat)"
  by code_simp




section \<open>A divisor of 0\<close>

text \<open>
  C10. In every state the program can reach, the decimation counter is at least 1 after its
  increment, so that the gate lets the tick through both when the host has set the divisor to
  0 and when it has set it to 1; the tick, and any run of ticks, then does with divisor 0
  exactly what it does with divisor 1, and captures as many frames.
\<close>

theorem divider_zero_like_one:
  assumes "reachable s"
  shows "1 \<le> unat (acquire_divider s + 1) \<and>
    qualifies (set_divider 0 s) \<and> qualifies (set_divider 1 s) \<and>
    vscopeAcquire m (set_divider 0 s) =
      map_option (set_divider 0) (vscopeAcquire m (set_divider 1 s)) \<and>
    ticks ms (set_divider 0 s) = map_option (set_divider 0) (ticks ms (set_divider 1 s)) \<and>
    frames_captured ms (set_divider 0 s) = frames_captured ms (set_divider 1 s)"
proof -
  from assms have c: "unat (acquire_divider s) < 65535" by (rule reachable_counter)
  note g = gate_zero_one [OF c]
  from g tick_set_divider [OF g(1,2)] ticks_zero_one [OF c] show ?thesis by simp
qed

theorem divider_zero_like_one_witness:
  "reachable example_running \<and>
   qualifies (set_divider 0 example_running) \<and> qualifies (set_divider 1 example_running) \<and>
   map_option (index \<circ> vscope) (vscopeAcquire example_memory (set_divider 0 example_running)) =
     Some 1 \<and>
   map_option (index \<circ> vscope) (vscopeAcquire example_memory (set_divider 1 example_running)) =
     Some 1"
proof -
  have v: "map_option (index \<circ> vscope)
      (vscopeAcquire example_memory (set_divider 1 example_running)) = Some 1"
    by code_simp
  note th = divider_zero_like_one [OF example_running_reachable,
      of example_memory "[example_memory]"]
  have "qualifies (set_divider 0 example_running)" "qualifies (set_divider 1 example_running)"
    "vscopeAcquire example_memory (set_divider 0 example_running) =
      map_option (set_divider 0) (vscopeAcquire example_memory (set_divider 1 example_running))"
    using th by blast+
  then show ?thesis using v example_running_reachable
    by (cases "vscopeAcquire example_memory (set_divider 1 example_running)")
       (simp_all add: set_divider_def)
qed


end
